theory Spec2Isabelle
  imports Complex_Main "HOL-Library.Multiset"
begin

section \<open>The pattern-detection engine of the criminal-network detector\<close>

text \<open>
  A shallow embedding of \<^verbatim>\<open>src/criminal_detector.py\<close> (class
  \<^verbatim>\<open>CriminalNetworkDetector\<close>) and of the helper
  \<^verbatim>\<open>get_top_nodes_by_metric\<close> of \<^verbatim>\<open>src/network_analysis.py\<close>.

  Conventions of the model:
  \<^item> node ids are Python integers (\<open>int\<close>); degrees and the configured contact
    counts are integers as well;
  \<^item> Python floats (centrality values, scores, the literals \<open>0.001\<close>, \<open>0.02\<close>, ...)
    are exact rationals (\<open>rat\<close>): the model idealises floating-point rounding away;
  \<^item> a Python dict is an association list with distinct keys, in insertion order;
  \<^item> \<open>list.sort(key=..., reverse=True)\<close> is a stable descending sort;
  \<^item> every \<open>raise\<close> the engine can meet is a value \<open>Inl e\<close> of \<open>py_error + 'a\<close>;
  \<^item> the \<open>print\<close> calls are left out, they do not change any returned value.
\<close>

subsection \<open>Python values and containers\<close>

type_synonym node = int

datatype py_error = IndexError | KeyError | NodeNotInGraph

text \<open>\<^verbatim>\<open>d.get(k, default)\<close> on a dict.\<close>

definition dict_get :: "('k \<times> 'v) list \<Rightarrow> 'k \<Rightarrow> 'v \<Rightarrow> 'v" where
  "dict_get d k dflt = (case map_of d k of None \<Rightarrow> dflt | Some v \<Rightarrow> v)"

text \<open>\<^verbatim>\<open>d[k] = v\<close> on a dict: an existing key keeps its place, a new key goes last.\<close>

fun dict_set :: "('k \<times> 'v) list \<Rightarrow> 'k \<Rightarrow> 'v \<Rightarrow> ('k \<times> 'v) list" where
  "dict_set [] k v = [(k, v)]"
| "dict_set ((k', v') # d) k v = (if k' = k then (k, v) # d else (k', v') # dict_set d k v)"

text \<open>\<^verbatim>\<open>xs[i]\<close> for a Python integer \<open>i\<close>: a negative index counts from the end.\<close>

definition py_index :: "'a list \<Rightarrow> int \<Rightarrow> py_error + 'a" where
  "py_index xs i =
     (let len = int (length xs);
          j = (if i < 0 then i + len else i)
      in if j < 0 \<or> len \<le> j then Inl IndexError else Inr (xs ! nat j))"

text \<open>\<^verbatim>\<open>xs[:n]\<close> for a Python integer \<open>n\<close>.\<close>

definition py_take :: "int \<Rightarrow> 'a list \<Rightarrow> 'a list" where
  "py_take n xs = (if 0 \<le> n then take (nat n) xs else take (length xs - nat (- n)) xs)"

text \<open>\<^verbatim>\<open>xs.sort(key=k, reverse=True)\<close> and \<^verbatim>\<open>sorted(xs, key=k, reverse=True)\<close>:
  descending by key, elements with equal keys keep their order.\<close>

definition sort_reverse :: "('a \<Rightarrow> 'b::{linorder, uminus}) \<Rightarrow> 'a list \<Rightarrow> 'a list" where
  "sort_reverse k xs = sort_key (\<lambda>x. - k x) xs"

text \<open>\<^verbatim>\<open>itertools.combinations(xs, r)\<close>, in the order in which it yields.\<close>

fun combinations :: "'a list \<Rightarrow> nat \<Rightarrow> 'a list list" where
  "combinations xs 0 = [[]]"
| "combinations [] (Suc r) = []"
| "combinations (x # xs) (Suc r) = map ((#) x) (combinations xs r) @ combinations xs (Suc r)"

text \<open>Truthiness of a value that is \<^verbatim>\<open>None\<close> or a node id, as in
  \<^verbatim>\<open>if leader_candidate:\<close>: \<^verbatim>\<open>None\<close> and the integer \<open>0\<close> are false.\<close>

fun truthy :: "node option \<Rightarrow> bool" where
  "truthy None = False"
| "truthy (Some n) = (n \<noteq> 0)"

text \<open>A \<^verbatim>\<open>for\<close> loop over a list whose body may raise: the state is threaded through
  the iterations and the first error ends the loop.\<close>

fun for_each :: "('a \<Rightarrow> 's \<Rightarrow> 'e + 's) \<Rightarrow> 'a list \<Rightarrow> 's \<Rightarrow> 'e + 's" where
  "for_each body [] s = Inr s"
| "for_each body (x # xs) s =
     (case body x s of Inl e \<Rightarrow> Inl e | Inr s' \<Rightarrow> for_each body xs s')"

subsection \<open>The graph, the metrics table and the configuration\<close>

text \<open>
  The networkx graph held by the analyzer: \<open>nodes\<close> is \<^verbatim>\<open>graph.nodes()\<close> in iteration
  order, \<open>neighbors g n\<close> is \<^verbatim>\<open>list(graph.neighbors(n))\<close>, \<open>node_name\<close> and
  \<open>node_city\<close> are the node attributes \<^verbatim>\<open>'name'\<close> and \<^verbatim>\<open>'city'\<close> where set.
\<close>

record graph =
  nodes :: "node list"
  neighbors :: "node \<Rightarrow> node list"
  node_name :: "node \<Rightarrow> string option"
  node_city :: "node \<Rightarrow> string option"

text \<open>The two metric dicts the engine reads, \<^verbatim>\<open>metrics['betweenness_centrality']\<close> and
  \<^verbatim>\<open>metrics['clustering_coefficient']\<close>.\<close>

record metrics =
  betweenness_centrality :: "(node \<times> rat) list"
  clustering_coefficient :: "(node \<times> rat) list"

text \<open>The entries of \<^verbatim>\<open>analysis_config.yaml\<close> the engine reads.\<close>

record config =
  employee_expected_contacts :: int
  employee_tolerance :: int
  handlers_expected_contacts_min :: int
  handlers_expected_contacts_max :: int
  fearless_leader_min_contacts :: int
  large_cities :: "string list"
  small_cities :: "string list"

definition number_of_nodes :: "graph \<Rightarrow> nat" where
  "number_of_nodes g = length (nodes g)"

text \<open>\<^verbatim>\<open>graph.degree(n)\<close> of networkx: the number of neighbours, a self-loop counting
  twice.\<close>

definition degree :: "graph \<Rightarrow> node \<Rightarrow> int" where
  "degree g n = int (length (neighbors g n)) + (if n \<in> set (neighbors g n) then 1 else 0)"

text \<open>\<^verbatim>\<open>analyzer.get_neighbors(n)\<close>; networkx raises for an id that is not a node.\<close>

definition get_neighbors :: "graph \<Rightarrow> node \<Rightarrow> py_error + node list" where
  "get_neighbors g n = (if n \<in> set (nodes g) then Inr (neighbors g n) else Inl NodeNotInGraph)"

text \<open>\<^verbatim>\<open>graph.nodes[n].get('city', '')\<close>.\<close>

definition city_of :: "graph \<Rightarrow> node \<Rightarrow> string" where
  "city_of g n = (case node_city g n of None \<Rightarrow> [] | Some c \<Rightarrow> c)"

definition betweenness :: "metrics \<Rightarrow> node \<Rightarrow> rat" where
  "betweenness m n = dict_get (betweenness_centrality m) n 0"

definition clustering :: "metrics \<Rightarrow> node \<Rightarrow> rat" where
  "clustering m n = dict_get (clustering_coefficient m) n 0"

text \<open>
  What networkx guarantees of every graph: the neighbours of a node are nodes and are
  listed once, the nodes are listed once, and adjacency is symmetric. A simple graph has,
  in addition, no self-loop.
\<close>

definition wf_graph :: "graph \<Rightarrow> bool" where
  "wf_graph g \<longleftrightarrow>
     distinct (nodes g) \<and>
     list_all (\<lambda>n. distinct (neighbors g n) \<and>
                   list_all (\<lambda>k. k \<in> set (nodes g) \<and> n \<in> set (neighbors g k)) (neighbors g n))
              (nodes g)"

definition simple_graph :: "graph \<Rightarrow> bool" where
  "simple_graph g \<longleftrightarrow> wf_graph g \<and> list_all (\<lambda>n. n \<notin> set (neighbors g n)) (nodes g)"

subsection \<open>Employee candidates\<close>

definition calculate_employee_score :: "graph \<Rightarrow> metrics \<Rightarrow> config \<Rightarrow> node \<Rightarrow> int \<Rightarrow> int \<Rightarrow> rat" where
  "calculate_employee_score g m cfg node_id deg expected_degree =
     (let score = 0;
          degree_diff = \<bar>deg - expected_degree\<bar>;
          degree_score = 1 / (1 + of_int degree_diff);
          score = score + degree_score * (4 / 10);
          score = (if city_of g node_id \<in> set (large_cities cfg) then score + 3 / 10 else score);
          score = (if 1 / 1000 < betweenness m node_id \<and> betweenness m node_id < 5 / 100
                   then score + 2 / 10 else score);
          score = (if 2 / 10 < clustering m node_id \<and> clustering m node_id < 6 / 10
                   then score + 1 / 10 else score)
      in score)"

definition identify_employee_candidates :: "graph \<Rightarrow> metrics \<Rightarrow> config \<Rightarrow> (node \<times> rat) list" where
  "identify_employee_candidates g m cfg =
     (let expected_contacts = employee_expected_contacts cfg;
          tolerance = employee_tolerance cfg;
          min_contacts = expected_contacts - tolerance;
          max_contacts = expected_contacts + tolerance;
          candidates =
            map (\<lambda>n. (n, calculate_employee_score g m cfg n (degree g n) expected_contacts))
              (filter (\<lambda>n. min_contacts \<le> degree g n \<and> degree g n \<le> max_contacts) (nodes g))
      in sort_reverse snd candidates)"

subsection \<open>Handler candidates\<close>

definition calculate_handler_score :: "graph \<Rightarrow> metrics \<Rightarrow> config \<Rightarrow> node \<Rightarrow> int \<Rightarrow> rat" where
  "calculate_handler_score g m cfg node_id deg =
     (let score = 5 / 10;
          score = (if 25 \<le> deg \<and> deg \<le> 45 then score + 4 / 10 else score);
          score = (if city_of g node_id \<in> set (large_cities cfg) then score + 2 / 10 else score);
          score = (if betweenness m node_id > 5 / 1000 then score + 3 / 10
                   else if betweenness m node_id > 1 / 1000 then score + 15 / 100
                   else score)
      in score)"

text \<open>The body of the loop of \<^verbatim>\<open>_find_handler_candidates\<close>; the degree lookup raises
  for an id that is not a node.\<close>

definition handler_body :: "graph \<Rightarrow> metrics \<Rightarrow> config \<Rightarrow> node \<Rightarrow> (node \<times> rat) list
    \<Rightarrow> py_error + (node \<times> rat) list" where
  "handler_body g m cfg node_id candidates =
     (if node_id \<notin> set (nodes g) then Inl NodeNotInGraph
      else
        let min_contacts = handlers_expected_contacts_min cfg;
            max_contacts = handlers_expected_contacts_max cfg;
            deg = degree g node_id
        in if min_contacts - 5 \<le> deg \<and> deg \<le> max_contacts + 5 then
             let score = calculate_handler_score g m cfg node_id deg;
                 score = (if min_contacts \<le> deg \<and> deg \<le> max_contacts then score * (15 / 10) else score)
             in Inr (candidates @ [(node_id, score)])
           else Inr candidates)"

definition find_handler_candidates :: "graph \<Rightarrow> metrics \<Rightarrow> config \<Rightarrow> node list
    \<Rightarrow> py_error + (node \<times> rat) list" where
  "find_handler_candidates g m cfg potential_handlers =
     (case for_each (handler_body g m cfg) potential_handlers [] of
        Inl e \<Rightarrow> Inl e
      | Inr candidates \<Rightarrow> Inr (sort_reverse snd candidates))"

subsection \<open>Leader identification\<close>

text \<open>\<^verbatim>\<open>max(1, int(total_nodes * 0.02))\<close>; \<^verbatim>\<open>int\<close> truncates, which on a
  non-negative number is the floor.\<close>

definition top_2_percent_count :: "graph \<Rightarrow> int" where
  "top_2_percent_count g = max 1 \<lfloor>(of_nat (number_of_nodes g) :: rat) * (2 / 100)\<rfloor>"

definition degree_threshold_top2 :: "graph \<Rightarrow> py_error + int" where
  "degree_threshold_top2 g =
     (let all_degrees = sort_reverse (\<lambda>d. d) (map (degree g) (nodes g))
      in py_index all_degrees (min (top_2_percent_count g) (int (length all_degrees) - 1)))"

definition betweenness_threshold_top2 :: "graph \<Rightarrow> metrics \<Rightarrow> py_error + rat" where
  "betweenness_threshold_top2 g m =
     (let all_betweenness = sort_reverse (\<lambda>b. b) (map snd (betweenness_centrality m))
      in py_index all_betweenness (min (top_2_percent_count g) (int (length all_betweenness) - 1)))"

text \<open>The body of the loop over \<^verbatim>\<open>potential_leaders\<close>; the state is
  \<^verbatim>\<open>(best_candidate, best_score)\<close>.\<close>

definition leader_body :: "graph \<Rightarrow> metrics \<Rightarrow> config \<Rightarrow> node list \<Rightarrow> int \<Rightarrow> rat
    \<Rightarrow> node \<Rightarrow> node option \<times> rat \<Rightarrow> py_error + node option \<times> rat" where
  "leader_body g m cfg exclude_ids degree_threshold betweenness_threshold node_id st =
     (if node_id \<in> set exclude_ids then Inr st
      else if node_id \<notin> set (nodes g) then Inl NodeNotInGraph
      else
        let deg = degree g node_id;
            betw = betweenness m node_id;
            in_top_2_percent = (deg \<ge> degree_threshold \<or> betw \<ge> betweenness_threshold)
        in if deg \<ge> fearless_leader_min_contacts cfg \<and> in_top_2_percent then
             let score = of_int deg + betw * 1000;
                 score = (if city_of g node_id \<in> set (large_cities cfg) then score * (12 / 10) else score)
             in if score > snd st then Inr (Some node_id, score) else Inr st
           else Inr st)"

definition find_fearless_leader :: "graph \<Rightarrow> metrics \<Rightarrow> config \<Rightarrow> node list \<Rightarrow> node list
    \<Rightarrow> py_error + node option" where
  "find_fearless_leader g m cfg potential_leaders exclude_ids =
     (case degree_threshold_top2 g of
        Inl e \<Rightarrow> Inl e
      | Inr degree_threshold \<Rightarrow>
          (case betweenness_threshold_top2 g m of
             Inl e \<Rightarrow> Inl e
           | Inr betweenness_threshold \<Rightarrow>
               (case for_each (leader_body g m cfg exclude_ids degree_threshold betweenness_threshold)
                       potential_leaders (None, 0) of
                  Inl e \<Rightarrow> Inl e
                | Inr st \<Rightarrow> Inr (fst st))))"

subsection \<open>Configuration scoring\<close>

definition score_geographic_pattern :: "graph \<Rightarrow> config \<Rightarrow> node \<Rightarrow> node list \<Rightarrow> node list \<Rightarrow> node \<Rightarrow> rat" where
  "score_geographic_pattern g cfg employee_id handler_ids middlemen_ids leader_id =
     (let score = 0;
          score = (if city_of g employee_id \<in> set (large_cities cfg) then score + 5 else score);
          score = foldl (\<lambda>s h. if city_of g h \<in> set (large_cities cfg) then s + 3 else s) score handler_ids;
          score = (if city_of g leader_id \<in> set (large_cities cfg) then score + 5 else score)
      in score)"

definition score_scenario_a_configuration :: "graph \<Rightarrow> metrics \<Rightarrow> config \<Rightarrow> node \<Rightarrow> node list \<Rightarrow> node \<Rightarrow> node \<Rightarrow> rat" where
  "score_scenario_a_configuration g m cfg employee_id handler_ids boris_id leader_id =
     (let score = 0;
          score = (if 35 \<le> degree g employee_id \<and> degree g employee_id \<le> 45 then score + 20 else score);
          score = foldl (\<lambda>s h. if 30 \<le> degree g h \<and> degree g h \<le> 40 then s + 10 else s) score handler_ids;
          score = (if 20 \<le> degree g boris_id \<and> degree g boris_id \<le> 50 then score + 15 else score);
          score = (if betweenness m boris_id > 1 / 100 then score + 15 else score);
          score = (if degree g leader_id \<ge> 100 then score + 20 else score)
      in score + score_geographic_pattern g cfg employee_id handler_ids [boris_id] leader_id)"

definition score_scenario_b_configuration :: "graph \<Rightarrow> metrics \<Rightarrow> config \<Rightarrow> node \<Rightarrow> node list \<Rightarrow> node list \<Rightarrow> node \<Rightarrow> rat" where
  "score_scenario_b_configuration g m cfg employee_id handler_ids middlemen_ids leader_id =
     (let score = 0;
          score = (if 35 \<le> degree g employee_id \<and> degree g employee_id \<le> 45 then score + 20 else score);
          score = foldl (\<lambda>s h. if 30 \<le> degree g h \<and> degree g h \<le> 40 then s + 10 else s) score handler_ids;
          score = foldl (\<lambda>s mm.
                    let s = (if 20 \<le> degree g mm \<and> degree g mm \<le> 60 then s + 5 else s)
                    in if betweenness m mm > 1 / 100 then s + 5 else s) score middlemen_ids;
          score = (if degree g leader_id \<ge> 100 then score + 20 else score)
      in score + score_geographic_pattern g cfg employee_id handler_ids middlemen_ids leader_id)"

subsection \<open>Scenario A: a single middleman\<close>

text \<open>The dicts the two searches return; Scenario B adds two keys.\<close>

record scenario_a_result =
  employee :: node
  handlers :: "node list"
  boris :: node
  fearless_leader :: node
  score :: rat
  scenario :: string

record scenario_b_result = scenario_a_result +
  morris :: node
  horace :: node

text \<open>The body of the loop over \<^verbatim>\<open>potential_boris[:5]\<close>; the state is
  \<^verbatim>\<open>all_valid_results\<close>, and \<^verbatim>\<open>continue\<close> returns it unchanged.\<close>

definition boris_body :: "graph \<Rightarrow> metrics \<Rightarrow> config \<Rightarrow> node \<Rightarrow> node list \<Rightarrow> node \<times> rat
    \<Rightarrow> scenario_a_result list \<Rightarrow> py_error + scenario_a_result list" where
  "boris_body g m cfg employee_id handler_ids cand all_valid_results =
     (let boris_candidate = fst cand
      in if boris_candidate = employee_id then Inr all_valid_results
         else if boris_candidate \<notin> set (nodes g) then Inl NodeNotInGraph
         else
           let boris_degree = degree g boris_candidate;
               boris_betweenness = betweenness m boris_candidate
           in if boris_degree > 80 \<or> boris_betweenness < 1 / 1000 then Inr all_valid_results
              else
                (case get_neighbors g boris_candidate of
                   Inl e \<Rightarrow> Inl e
                 | Inr boris_neighbors \<Rightarrow>
                     (case find_fearless_leader g m cfg boris_neighbors (handler_ids @ [employee_id]) of
                        Inl e \<Rightarrow> Inl e
                      | Inr leader_candidate \<Rightarrow>
                          (case leader_candidate of
                             None \<Rightarrow> Inr all_valid_results
                           | Some leader \<Rightarrow>
                               if truthy leader_candidate then
                                 let config_score = score_scenario_a_configuration g m cfg
                                       employee_id handler_ids boris_candidate leader
                                 in Inr (all_valid_results @
                                      [\<lparr>employee = employee_id, handlers = handler_ids,
                                        boris = boris_candidate, fearless_leader = leader,
                                        score = config_score, scenario = ''A''\<rparr>])
                               else Inr all_valid_results))))"

text \<open>The body of the loop over the handler triples.\<close>

definition combo_body_a :: "graph \<Rightarrow> metrics \<Rightarrow> config \<Rightarrow> node \<Rightarrow> node list \<Rightarrow> (node \<times> rat) list
    \<Rightarrow> scenario_a_result list \<Rightarrow> py_error + scenario_a_result list" where
  "combo_body_a g m cfg employee_id employee_neighbors handler_combo all_valid_results =
     (let handler_ids = map fst handler_combo;
          potential_boris =
            map (\<lambda>nb. (nb, betweenness m nb))
              (filter (\<lambda>nb. nb \<notin> set handler_ids \<and> betweenness m nb > 1 / 1000) employee_neighbors);
          potential_boris = sort_reverse snd potential_boris
      in if potential_boris = [] then Inr all_valid_results
         else for_each (boris_body g m cfg employee_id handler_ids) (take 5 potential_boris)
                all_valid_results)"

definition detect_scenario_a :: "graph \<Rightarrow> metrics \<Rightarrow> config \<Rightarrow> node \<Rightarrow> py_error + scenario_a_result list" where
  "detect_scenario_a g m cfg employee_id =
     (case get_neighbors g employee_id of
        Inl e \<Rightarrow> Inl e
      | Inr employee_neighbors \<Rightarrow>
          (case find_handler_candidates g m cfg employee_neighbors of
             Inl e \<Rightarrow> Inl e
           | Inr handler_candidates \<Rightarrow>
               if length handler_candidates < 3 then Inr []
               else
                 let handler_combos = combinations (take 10 handler_candidates) 3
                 in (case for_each (combo_body_a g m cfg employee_id employee_neighbors)
                            handler_combos [] of
                       Inl e \<Rightarrow> Inl e
                     | Inr all_valid_results \<Rightarrow>
                         Inr (take 3 (sort_reverse score all_valid_results)))))"

subsection \<open>Scenario B: three middlemen\<close>

text \<open>The body of the loop of \<^verbatim>\<open>_find_best_middleman_for_handler\<close>; the state is
  \<^verbatim>\<open>(best_candidate, best_score)\<close>.\<close>

definition middleman_body :: "graph \<Rightarrow> metrics \<Rightarrow> config \<Rightarrow> node \<Rightarrow> node option \<times> rat
    \<Rightarrow> py_error + node option \<times> rat" where
  "middleman_body g m cfg node_id st =
     (if node_id \<notin> set (nodes g) then Inl NodeNotInGraph
      else
        let deg = degree g node_id;
            betw = betweenness m node_id
        in if 15 \<le> deg \<and> deg \<le> 70 \<and> betw > 5 / 1000 then
             let score = betw * of_int deg;
                 score = (if city_of g node_id \<in> set (small_cities cfg) then score * (13 / 10) else score)
             in if score > snd st then Inr (Some node_id, score) else Inr st
           else Inr st)"

definition find_best_middleman_for_handler :: "graph \<Rightarrow> metrics \<Rightarrow> config \<Rightarrow> node list
    \<Rightarrow> py_error + node option" where
  "find_best_middleman_for_handler g m cfg potential_middlemen =
     (case for_each (middleman_body g m cfg) potential_middlemen (None, 0) of
        Inl e \<Rightarrow> Inl e
      | Inr st \<Rightarrow> Inr (fst st))"

text \<open>The middleman search made for one handler of a triple, as in the loop over
  \<^verbatim>\<open>handler_ids\<close> of \<^verbatim>\<open>detect_scenario_b\<close>.\<close>

definition handler_middleman :: "graph \<Rightarrow> metrics \<Rightarrow> config \<Rightarrow> node \<Rightarrow> node list \<Rightarrow> node
    \<Rightarrow> py_error + node option" where
  "handler_middleman g m cfg employee_id handler_ids handler_id =
     (case get_neighbors g handler_id of
        Inl e \<Rightarrow> Inl e
      | Inr handler_neighbors \<Rightarrow>
          let potential_middlemen =
                filter (\<lambda>n. n \<noteq> employee_id \<and> n \<notin> set handler_ids) handler_neighbors
          in find_best_middleman_for_handler g m cfg potential_middlemen)"

text \<open>The body of that loop; the state is the list \<^verbatim>\<open>middlemen\<close>.\<close>

definition middlemen_body :: "graph \<Rightarrow> metrics \<Rightarrow> config \<Rightarrow> node \<Rightarrow> node list \<Rightarrow> node \<Rightarrow> node list
    \<Rightarrow> py_error + node list" where
  "middlemen_body g m cfg employee_id handler_ids handler_id middlemen =
     (case handler_middleman g m cfg employee_id handler_ids handler_id of
        Inl e \<Rightarrow> Inl e
      | Inr middleman \<Rightarrow>
          (case middleman of
             None \<Rightarrow> Inr middlemen
           | Some mm \<Rightarrow> if truthy middleman then Inr (middlemen @ [mm]) else Inr middlemen))"

text \<open>The loop \<^verbatim>\<open>for m in middlemen[1:]: common_leader_neighbors &= set(get_neighbors(m))\<close>.\<close>

definition common_body :: "graph \<Rightarrow> node \<Rightarrow> node set \<Rightarrow> py_error + node set" where
  "common_body g mm common_leader_neighbors =
     (case get_neighbors g mm of
        Inl e \<Rightarrow> Inl e
      | Inr ns \<Rightarrow> Inr (common_leader_neighbors \<inter> set ns))"

text \<open>
  The body of the loop over the handler triples; the state is
  \<^verbatim>\<open>(best_result, best_score)\<close>. Python does not fix the order in which \<^verbatim>\<open>list(s)\<close>
  lists a set \<open>s\<close>: the model takes that order as the parameter \<open>set_iter\<close>.
\<close>

definition combo_body_b :: "(node set \<Rightarrow> node list) \<Rightarrow> graph \<Rightarrow> metrics \<Rightarrow> config \<Rightarrow> node
    \<Rightarrow> (node \<times> rat) list \<Rightarrow> scenario_b_result option \<times> rat
    \<Rightarrow> py_error + scenario_b_result option \<times> rat" where
  "combo_body_b set_iter g m cfg employee_id handler_combo st =
     (let handler_ids = map fst handler_combo
      in case for_each (middlemen_body g m cfg employee_id handler_ids) handler_ids [] of
           Inl e \<Rightarrow> Inl e
         | Inr middlemen \<Rightarrow>
             if length middlemen \<noteq> 3 \<or> card (set middlemen) \<noteq> 3 then Inr st
             else
               (case get_neighbors g (middlemen ! 0) of
                  Inl e \<Rightarrow> Inl e
                | Inr ns0 \<Rightarrow>
                    (case for_each (common_body g) (tl middlemen) (set ns0) of
                       Inl e \<Rightarrow> Inl e
                     | Inr common_leader_neighbors \<Rightarrow>
                         let exclude_set = set (handler_ids @ [employee_id] @ middlemen);
                             common_leader_neighbors = common_leader_neighbors - exclude_set
                         in (case find_fearless_leader g m cfg (set_iter common_leader_neighbors)
                                    (set_iter exclude_set) of
                               Inl e \<Rightarrow> Inl e
                             | Inr leader_candidate \<Rightarrow>
                                 (case leader_candidate of
                                    None \<Rightarrow> Inr st
                                  | Some leader \<Rightarrow>
                                      if truthy leader_candidate then
                                        let config_score = score_scenario_b_configuration g m cfg
                                              employee_id handler_ids middlemen leader
                                        in if config_score > snd st then
                                             Inr (Some \<lparr>employee = employee_id, handlers = handler_ids,
                                                        boris = middlemen ! 0, fearless_leader = leader,
                                                        score = config_score, scenario = ''B'',
                                                        morris = middlemen ! 1, horace = middlemen ! 2\<rparr>,
                                                  config_score)
                                           else Inr st
                                      else Inr st)))))"

definition detect_scenario_b :: "(node set \<Rightarrow> node list) \<Rightarrow> graph \<Rightarrow> metrics \<Rightarrow> config \<Rightarrow> node
    \<Rightarrow> py_error + scenario_b_result option" where
  "detect_scenario_b set_iter g m cfg employee_id =
     (case get_neighbors g employee_id of
        Inl e \<Rightarrow> Inl e
      | Inr employee_neighbors \<Rightarrow>
          (case find_handler_candidates g m cfg employee_neighbors of
             Inl e \<Rightarrow> Inl e
           | Inr handler_candidates \<Rightarrow>
               if length handler_candidates < 3 then Inr None
               else
                 (case for_each (combo_body_b set_iter g m cfg employee_id)
                         (combinations (take 10 handler_candidates) 3) (None, 0) of
                    Inl e \<Rightarrow> Inl e
                  | Inr st \<Rightarrow> Inr (fst st))))"

subsection \<open>Top-level orchestration\<close>

record detection_results =
  scenario_a :: "(node \<times> scenario_a_result list) list"
  scenario_b :: "(node \<times> scenario_b_result) list"
  employee_candidates :: "(node \<times> rat) list"

text \<open>The body of the loop over \<^verbatim>\<open>employee_candidates[:5]\<close>. Its first statement prints
  \<^verbatim>\<open>graph.nodes[emp_id]['name']\<close>, which raises for a node without that attribute.\<close>

definition employee_body :: "(node set \<Rightarrow> node list) \<Rightarrow> graph \<Rightarrow> metrics \<Rightarrow> config \<Rightarrow> node \<times> rat
    \<Rightarrow> detection_results \<Rightarrow> py_error + detection_results" where
  "employee_body set_iter g m cfg cand results =
     (let emp_id = fst cand
      in if node_name g emp_id = None then Inl KeyError
         else
           (case detect_scenario_a g m cfg emp_id of
              Inl e \<Rightarrow> Inl e
            | Inr scenario_a_results \<Rightarrow>
                let results = (if scenario_a_results \<noteq> []
                               then results\<lparr>scenario_a := dict_set (scenario_a results) emp_id scenario_a_results\<rparr>
                               else results)
                in (case detect_scenario_b set_iter g m cfg emp_id of
                      Inl e \<Rightarrow> Inl e
                    | Inr scenario_b_result \<Rightarrow>
                        (case scenario_b_result of
                           None \<Rightarrow> Inr results
                         | Some r \<Rightarrow> Inr (results\<lparr>scenario_b := dict_set (scenario_b results) emp_id r\<rparr>)))))"

definition detect_all_patterns :: "(node set \<Rightarrow> node list) \<Rightarrow> graph \<Rightarrow> metrics \<Rightarrow> config
    \<Rightarrow> py_error + detection_results" where
  "detect_all_patterns set_iter g m cfg =
     (let employee_candidates = identify_employee_candidates g m cfg;
          results = \<lparr>scenario_a = [], scenario_b = [], employee_candidates = employee_candidates\<rparr>
      in for_each (employee_body set_iter g m cfg) (take 5 employee_candidates) results)"

subsection \<open>The generic top-N-by-metric helper\<close>

text \<open>\<^verbatim>\<open>SocialNetworkAnalyzer.get_top_nodes_by_metric\<close>: \<open>metrics_dict\<close> is the whole dict
  \<^verbatim>\<open>self.metrics\<close>, from metric name to the dict of that metric. No path of the function
  raises.\<close>

definition get_top_nodes_by_metric :: "(string \<times> (node \<times> rat) list) list \<Rightarrow> string \<Rightarrow> int
    \<Rightarrow> py_error + (node \<times> rat) list" where
  "get_top_nodes_by_metric metrics_dict metric_name top_n =
     (case map_of metrics_dict metric_name of
        None \<Rightarrow> Inr []
      | Some metric_data \<Rightarrow>
          let sorted_nodes = sort_reverse snd metric_data
          in Inr (py_take top_n sorted_nodes))"

section \<open>The properties, in the words of the specification\<close>

text \<open>\<open>ds\<close> is the list \<open>xs\<close> sorted in descending order.\<close>

definition descending :: "'a::linorder list \<Rightarrow> 'a list \<Rightarrow> bool" where
  "descending xs ds \<longleftrightarrow> mset ds = mset xs \<and> sorted_wrt (\<ge>) ds"

text \<open>The leader score and the leader qualification rule of the specification, for
  thresholds \<open>dt\<close> and \<open>bt\<close> and the exclusion list \<open>excl\<close>.\<close>

definition leader_score :: "graph \<Rightarrow> metrics \<Rightarrow> config \<Rightarrow> node \<Rightarrow> rat" where
  "leader_score g m cfg n =
     (of_int (degree g n) + 1000 * betweenness m n)
       * (if city_of g n \<in> set (large_cities cfg) then 12 / 10 else 1)"

definition leader_qualifies :: "graph \<Rightarrow> metrics \<Rightarrow> config \<Rightarrow> int \<Rightarrow> rat \<Rightarrow> node list \<Rightarrow> node \<Rightarrow> bool" where
  "leader_qualifies g m cfg dt bt excl n \<longleftrightarrow>
     degree g n \<ge> fearless_leader_min_contacts cfg
     \<and> (degree g n \<ge> dt \<or> betweenness m n \<ge> bt)
     \<and> n \<notin> set excl"

text \<open>The employee and handler scores of the specification.\<close>

definition employee_score_spec :: "graph \<Rightarrow> metrics \<Rightarrow> config \<Rightarrow> node \<Rightarrow> rat" where
  "employee_score_spec g m cfg n =
     (4 / 10) / (1 + of_int \<bar>degree g n - employee_expected_contacts cfg\<bar>)
     + (if city_of g n \<in> set (large_cities cfg) then 3 / 10 else 0)
     + (if 1 / 1000 < betweenness m n \<and> betweenness m n < 5 / 100 then 2 / 10 else 0)
     + (if 2 / 10 < clustering m n \<and> clustering m n < 6 / 10 then 1 / 10 else 0)"

definition handler_score_spec :: "graph \<Rightarrow> metrics \<Rightarrow> config \<Rightarrow> node \<Rightarrow> rat" where
  "handler_score_spec g m cfg n =
     (5 / 10
      + (if 25 \<le> degree g n \<and> degree g n \<le> 45 then 4 / 10 else 0)
      + (if city_of g n \<in> set (large_cities cfg) then 2 / 10 else 0)
      + (if betweenness m n > 5 / 1000 then 3 / 10
         else if betweenness m n > 1 / 1000 then 15 / 100 else 0))
     * (if handlers_expected_contacts_min cfg \<le> degree g n
           \<and> degree g n \<le> handlers_expected_contacts_max cfg then 15 / 10 else 1)"

text \<open>The middleman a search contributes to the list \<^verbatim>\<open>middlemen\<close>.\<close>

definition kept_middleman :: "py_error + node option \<Rightarrow> node list" where
  "kept_middleman r = (case r of Inr (Some mm) \<Rightarrow> if mm \<noteq> 0 then [mm] else [] | _ \<Rightarrow> [])"

text \<open>The role nodes of a configuration: employee, handlers, middlemen, leader.\<close>

definition roles_a :: "scenario_a_result \<Rightarrow> node list" where
  "roles_a r = employee r # handlers r @ [boris r, fearless_leader r]"

definition roles_b :: "scenario_b_result \<Rightarrow> node list" where
  "roles_b r = employee r # handlers r @ [boris r, morris r, horace r, fearless_leader r]"

text \<open>The entry an employee contributes to each scenario map of the result bundle: the
  non-empty Scenario A list, and the Scenario B configuration.\<close>

definition entry_a :: "graph \<Rightarrow> metrics \<Rightarrow> config \<Rightarrow> node \<Rightarrow> scenario_a_result list option" where
  "entry_a g m cfg e =
     (case detect_scenario_a g m cfg e of Inl _ \<Rightarrow> None | Inr rs \<Rightarrow> if rs = [] then None else Some rs)"

definition entry_b :: "(node set \<Rightarrow> node list) \<Rightarrow> graph \<Rightarrow> metrics \<Rightarrow> config \<Rightarrow> node \<Rightarrow> scenario_b_result option" where
  "entry_b set_iter g m cfg e =
     (case detect_scenario_b set_iter g m cfg e of Inl _ \<Rightarrow> None | Inr r \<Rightarrow> r)"

text \<open>
  Scenario A in the words of the specification: the middleman candidates of a handler
  triple \<open>hs\<close> (the top 5 by betweenness among the employee's neighbours outside the triple
  with betweenness above 0.001), and the configuration a candidate yields (none if it is
  the employee, has degree above 80 or betweenness at most 0.001, or no leader is found).
\<close>

definition middleman_candidates_a :: "graph \<Rightarrow> metrics \<Rightarrow> node \<Rightarrow> node list \<Rightarrow> (node \<times> rat) list" where
  "middleman_candidates_a g m e hs =
     take 5 (sort_reverse snd
       (map (\<lambda>nb. (nb, betweenness m nb))
          (filter (\<lambda>nb. nb \<notin> set hs \<and> betweenness m nb > 1 / 1000) (neighbors g e))))"

definition configurations_a :: "graph \<Rightarrow> metrics \<Rightarrow> config \<Rightarrow> node \<Rightarrow> node list \<Rightarrow> node \<times> rat
    \<Rightarrow> scenario_a_result list" where
  "configurations_a g m cfg e hs cand =
     (if fst cand = e \<or> degree g (fst cand) > 80 \<or> betweenness m (fst cand) \<le> 1 / 1000 then []
      else (case find_fearless_leader g m cfg (neighbors g (fst cand)) (hs @ [e]) of
              Inr (Some l) \<Rightarrow>
                [\<lparr>employee = e, handlers = hs, boris = fst cand, fearless_leader = l,
                  score = score_scenario_a_configuration g m cfg e hs (fst cand) l,
                  scenario = ''A''\<rparr>]
            | _ \<Rightarrow> []))"

text \<open>
  Scenario B in the words of the specification: the configuration a handler triple \<open>hs\<close>
  yields, when each handler has a middleman, the three are pairwise distinct and a leader
  is found among their common neighbours outside the roles already bound.
\<close>

definition configuration_b :: "(node set \<Rightarrow> node list) \<Rightarrow> graph \<Rightarrow> metrics \<Rightarrow> config \<Rightarrow> node \<Rightarrow> node list
    \<Rightarrow> scenario_b_result option" where
  "configuration_b set_iter g m cfg e hs =
     (case map (handler_middleman g m cfg e hs) hs of
        [Inr (Some m1), Inr (Some m2), Inr (Some m3)] \<Rightarrow>
          if distinct [m1, m2, m3] then
            (case find_fearless_leader g m cfg
                    (set_iter (set (neighbors g m1) \<inter> set (neighbors g m2) \<inter> set (neighbors g m3)
                               - set (hs @ [e] @ [m1, m2, m3])))
                    (set_iter (set (hs @ [e] @ [m1, m2, m3]))) of
               Inr (Some l) \<Rightarrow>
                 Some \<lparr>employee = e, handlers = hs, boris = m1, fearless_leader = l,
                       score = score_scenario_b_configuration g m cfg e hs [m1, m2, m3] l,
                       scenario = ''B'', morris = m2, horace = m3\<rparr>
             | _ \<Rightarrow> None)
          else None
      | _ \<Rightarrow> None)"

section \<open>Concrete inputs\<close>

text \<open>A graph built as \<^verbatim>\<open>build_graph\<close> does: the nodes in the order given, every node
  named, the cities as listed, one undirected edge per pair.\<close>

definition mk_graph :: "node list \<Rightarrow> (node \<times> node) list \<Rightarrow> (node \<times> string) list \<Rightarrow> graph" where
  "mk_graph ns es cities =
     \<lparr>nodes = ns,
      neighbors = (\<lambda>n. concat (map (\<lambda>e. (if fst e = n then [snd e] else []) @
                                         (if snd e = n then [fst e] else [])) es)),
      node_name = (\<lambda>n. if n \<in> set ns then Some ''person'' else None),
      node_city = map_of cities\<rparr>"

text \<open>A star: node 1, in a large city, joined to nodes 2 and 3.\<close>

definition star_graph :: graph where
  "star_graph = mk_graph [1, 2, 3] [(1, 2), (1, 3)] [(1, ''Metropolis'')]"

definition star_metrics :: metrics where
  "star_metrics = \<lparr>betweenness_centrality = [(1, 1), (2, 0), (3, 0)],
                    clustering_coefficient = [(1, 0), (2, 0), (3, 0)]\<rparr>"

definition star_config :: config where
  "star_config = \<lparr>employee_expected_contacts = 1, employee_tolerance = 0,
     handlers_expected_contacts_min = 1, handlers_expected_contacts_max = 1,
     fearless_leader_min_contacts = 1, large_cities = [''Metropolis''], small_cities = []\<rparr>"

text \<open>
  The end-to-end scenario of the specification: employee 1, handlers 2, 3 and 4, middleman
  5 and a leader \<open>l\<close>, with the edges 1-2, 1-3, 1-4, 1-5 and 5-\<open>l\<close>.
\<close>

definition ring_graph :: "node \<Rightarrow> graph" where
  "ring_graph l = mk_graph [1, 2, 3, 4, 5, l] [(1, 2), (1, 3), (1, 4), (1, 5), (5, l)] []"

definition ring_metrics :: "node \<Rightarrow> metrics" where
  "ring_metrics l =
     \<lparr>betweenness_centrality = [(1, 0), (2, 0), (3, 0), (4, 0), (5, 2 / 100), (l, 1 / 2)],
      clustering_coefficient = []\<rparr>"

definition ring_config :: config where
  "ring_config = \<lparr>employee_expected_contacts = 4, employee_tolerance = 0,
     handlers_expected_contacts_min = 1, handlers_expected_contacts_max = 1,
     fearless_leader_min_contacts = 1, large_cities = [''Metropolis''], small_cities = []\<rparr>"

text \<open>
  A cell of 21 nodes: employee 1 with the handlers 2, 3 and 4; handler 2 reports to
  middleman 5, handler 3 to middleman \<open>mid3\<close>, handler 4 to middleman 7; the nodes 8 to 21
  are joined to each of 5, 6 and 7, and node 8 has the high betweenness of a leader.
\<close>

definition cell_graph :: "node \<Rightarrow> (node \<times> string) list \<Rightarrow> graph" where
  "cell_graph mid3 cities =
     mk_graph (map int [1..<22])
       ([(1, 2), (1, 3), (1, 4), (2, 5), (3, mid3), (4, 7)]
        @ concat (map (\<lambda>f. [(5, int f), (6, int f), (7, int f)]) [8..<22]))
       cities"

definition cell_metrics :: metrics where
  "cell_metrics =
     \<lparr>betweenness_centrality =
        map (\<lambda>n. (int n, if n = 8 then 1 / 2 else if n \<in> {5, 6, 7} then 6 / 1000 else 0)) [1..<22],
      clustering_coefficient = []\<rparr>"

definition cell_config :: config where
  "cell_config = \<lparr>employee_expected_contacts = 3, employee_tolerance = 0,
     handlers_expected_contacts_min = 2, handlers_expected_contacts_max = 2,
     fearless_leader_min_contacts = 3, large_cities = [''Metropolis''], small_cities = []\<rparr>"

text \<open>
  A graph of 100 nodes: node 1 is joined to the ten nodes 4 to 13, node 2 to the eight nodes
  14 to 21, node 3 to the five nodes 22 to 26; the nodes 27 to 100 are isolated. The
  betweenness table holds the normalised betweenness centrality of this graph: 45, 28 and
  10 pairs of leaves out of 4851 pairs for the nodes 1, 2 and 3, and 0 elsewhere.
\<close>

definition hub_graph :: graph where
  "hub_graph =
     mk_graph (map int [1..<101])
       (map (\<lambda>f. (1, int f)) [4..<14] @ map (\<lambda>f. (2, int f)) [14..<22]
        @ map (\<lambda>f. (3, int f)) [22..<27])
       []"

definition hub_metrics :: metrics where
  "hub_metrics =
     \<lparr>betweenness_centrality =
        map (\<lambda>n. (int n, if n = 1 then 45 / 4851 else if n = 2 then 28 / 4851
                          else if n = 3 then 10 / 4851 else 0)) [1..<101],
      clustering_coefficient = []\<rparr>"

definition hub_config :: config where
  "hub_config = \<lparr>employee_expected_contacts = 40, employee_tolerance = 5,
     handlers_expected_contacts_min = 30, handlers_expected_contacts_max = 40,
     fearless_leader_min_contacts = 5, large_cities = [], small_cities = []\<rparr>"

text \<open>A graph of four nodes with the edges 1-2, 1-3, 2-3 and 3-4.\<close>

definition kite_graph :: graph where
  "kite_graph = mk_graph [1, 2, 3, 4] [(1, 2), (1, 3), (2, 3), (3, 4)] []"



section \<open>Facts about the containers\<close>

lemma set_sort_reverse: "set (sort_reverse k xs) = set xs"
  by (simp add: sort_reverse_def)

lemma length_sort_reverse: "length (sort_reverse k xs) = length xs"
  by (simp add: sort_reverse_def)

lemma mset_sort_reverse: "mset (sort_reverse k xs) = mset xs"
  by (simp add: sort_reverse_def)

lemma sorted_sort_reverse:
  fixes k :: "'a \<Rightarrow> 'b::{linorder, ordered_ab_group_add}"
  shows "sorted_wrt (\<lambda>a b. k a \<ge> k b) (sort_reverse k xs)"
proof -
  have "sorted (map (\<lambda>x. - k x) (sort_key (\<lambda>x. - k x) xs))"
    by (rule sorted_sort_key)
  then show ?thesis
    by (simp add: sort_reverse_def sorted_map)
qed

lemma descending_sort_reverse:
  fixes xs :: "'b::{linorder, ordered_ab_group_add} list"
  shows "descending xs (sort_reverse (\<lambda>x. x) xs)"
  using sorted_sort_reverse [of "\<lambda>x. x" xs] by (simp add: descending_def mset_sort_reverse)

lemma py_index_in_range:
  "0 \<le> i \<Longrightarrow> i < int (length xs) \<Longrightarrow> py_index xs i = Inr (xs ! nat i)"
  by (simp add: py_index_def Let_def)

lemma py_index_empty: "py_index [] i = Inl IndexError"
  by (simp add: py_index_def Let_def)

lemma top_2_percent_count_div: "top_2_percent_count g = max 1 (int (number_of_nodes g) div 50)"
proof -
  have "\<lfloor>(of_nat (number_of_nodes g) :: rat) * (2 / 100)\<rfloor> = \<lfloor>(of_int (int (number_of_nodes g)) :: rat) / of_int 50\<rfloor>"
    by simp
  also have "\<dots> = int (number_of_nodes g) div 50"
    by (rule floor_divide_of_int_eq)
  finally show ?thesis by (simp add: top_2_percent_count_def)
qed

lemma rank_clamped:
  assumes "xs \<noteq> []"
  shows "py_index (sort_reverse (\<lambda>x. x) xs) (min (top_2_percent_count g) (int (length (sort_reverse (\<lambda>x. x) xs)) - 1))
         = Inr (sort_reverse (\<lambda>x. x) xs ! min (nat (top_2_percent_count g)) (length xs - 1))"
proof -
  let ?i = "min (top_2_percent_count g) (int (length (sort_reverse (\<lambda>x. x) xs)) - 1)"
  have len: "0 < length xs" using assms by simp
  have k: "1 \<le> top_2_percent_count g" by (simp add: top_2_percent_count_def)
  have "0 \<le> ?i" using len k by (simp add: length_sort_reverse)
  moreover have "?i < int (length (sort_reverse (\<lambda>x. x) xs))" by simp
  moreover have "nat ?i = min (nat (top_2_percent_count g)) (length xs - 1)"
    using len k by (simp add: length_sort_reverse)
  ultimately show ?thesis by (simp add: py_index_in_range)
qed

lemma for_each_invariant:
  assumes "for_each body xs s = Inr s'"
    and "I s"
    and "\<And>x s s'. x \<in> set xs \<Longrightarrow> I s \<Longrightarrow> body x s = Inr s' \<Longrightarrow> I s'"
  shows "I s'"
  using assms
proof (induction xs arbitrary: s)
  case Nil
  then show ?case by simp
next
  case (Cons x xs)
  from Cons.prems(1) obtain s1 where b: "body x s = Inr s1" and r: "for_each body xs s1 = Inr s'"
    by (auto split: sum.splits)
  have "I s1" using Cons.prems(3) [of x s s1] Cons.prems(2) b by simp
  moreover have "I t'" if "y \<in> set xs" "I t" "body y t = Inr t'" for y t t'
    using Cons.prems(3) [of y t t'] that by simp
  ultimately show ?case using Cons.IH [OF r] by blast
qed

lemmas ev = mk_graph_def degree_def betweenness_def clustering_def dict_get_def city_of_def
  number_of_nodes_def top_2_percent_count_def sort_reverse_def py_index_def
  degree_threshold_top2_def betweenness_threshold_top2_def Let_def

lemma for_each_total:
  assumes "I s"
    and "\<And>x s. x \<in> set xs \<Longrightarrow> I s \<Longrightarrow> \<exists>s'. body x s = Inr s' \<and> I s'"
  shows "\<exists>s'. for_each body xs s = Inr s' \<and> I s'"
  using assms
proof (induction xs arbitrary: s)
  case Nil
  then show ?case by simp
next
  case (Cons x xs)
  from Cons.prems(2) [of x s] Cons.prems(1) obtain s1 where b: "body x s = Inr s1" and i: "I s1"
    by auto
  have "\<exists>s'. body y t = Inr s' \<and> I s'" if "y \<in> set xs" "I t" for y t
    using Cons.prems(2) [of y t] that by simp
  with Cons.IH [OF i] obtain s' where "for_each body xs s1 = Inr s'" "I s'" by blast
  with b show ?case by simp
qed

lemma combinations_props:
  assumes "c \<in> set (combinations xs r)"
  shows "length c = r \<and> set c \<subseteq> set xs \<and> (distinct (map f xs) \<longrightarrow> distinct (map f c))"
  using assms
proof (induction xs r arbitrary: c rule: combinations.induct)
  case (1 xs)
  then show ?case by simp
next
  case (2 r)
  then show ?case by simp
next
  case (3 x xs r)
  from "3.prems" consider
      (a) c' where "c = x # c'" "c' \<in> set (combinations xs r)"
    | (b) "c \<in> set (combinations xs (Suc r))"
    by auto
  then show ?case
  proof cases
    case a
    with "3.IH"(1) [of c'] show ?thesis by auto
  next
    case b
    with "3.IH"(2) [of c] show ?thesis by auto
  qed
qed

lemma wf_graph_neighbors:
  assumes "wf_graph g" and "n \<in> set (nodes g)"
  shows "distinct (neighbors g n) \<and> set (neighbors g n) \<subseteq> set (nodes g)"
  using assms by (auto simp add: wf_graph_def list_all_iff)

lemma simple_graph_no_loop:
  assumes "simple_graph g" and "n \<in> set (nodes g)"
  shows "n \<notin> set (neighbors g n)"
  using assms by (auto simp add: simple_graph_def list_all_iff)

lemma map_of_dict_set: "map_of (dict_set d k v) = (map_of d)(k \<mapsto> v)"
  by (induction d k v rule: dict_set.induct) auto

lemma set_iter_sorted: "finite S \<Longrightarrow> set (sorted_list_of_set S) = S"
  by simp

lemma thresholds_total:
  assumes "nodes g \<noteq> []" and "betweenness_centrality m \<noteq> []"
  shows "\<exists>dt bt. degree_threshold_top2 g = Inr dt \<and> betweenness_threshold_top2 g m = Inr bt"
  using assms rank_clamped [of "map (degree g) (nodes g)" g]
    rank_clamped [of "map snd (betweenness_centrality m)" g]
  by (simp add: degree_threshold_top2_def betweenness_threshold_top2_def)



section \<open>Leader identification\<close>

text \<open>
  What the code computes: the cutoff count is \<open>max 1 \<lfloor>0.02 N\<rfloor>\<close>, and each threshold is the
  element at the 0-based index \<open>min count (len - 1)\<close> of the descending-sorted list of the
  metric, that is the value of rank \<open>count + 1\<close> when the list is longer than the count.
\<close>

lemma leader_threshold_index:
  "top_2_percent_count g = max 1 \<lfloor>(of_nat (number_of_nodes g) :: rat) * (2 / 100)\<rfloor>
   \<and> (nodes g \<noteq> [] \<longrightarrow>
        (\<exists>ds. descending (map (degree g) (nodes g)) ds \<and>
              degree_threshold_top2 g
                = Inr (ds ! min (nat (top_2_percent_count g)) (number_of_nodes g - 1))))
   \<and> (betweenness_centrality m \<noteq> [] \<longrightarrow>
        (\<exists>bs. descending (map snd (betweenness_centrality m)) bs \<and>
              betweenness_threshold_top2 g m
                = Inr (bs ! min (nat (top_2_percent_count g)) (length (betweenness_centrality m) - 1))))
   \<and> (number_of_nodes g = 100 \<longrightarrow> top_2_percent_count g = 2)
   \<and> (number_of_nodes g = 1 \<longrightarrow> top_2_percent_count g = 1)
   \<and> (number_of_nodes g = 49 \<longrightarrow> top_2_percent_count g = 1)"
proof -
  have c0: "top_2_percent_count g = max 1 \<lfloor>(of_nat (number_of_nodes g) :: rat) * (2 / 100)\<rfloor>"
    by (simp add: top_2_percent_count_def)
  have c1: "nodes g \<noteq> [] \<longrightarrow>
        (\<exists>ds. descending (map (degree g) (nodes g)) ds \<and>
              degree_threshold_top2 g
                = Inr (ds ! min (nat (top_2_percent_count g)) (number_of_nodes g - 1)))"
  proof
    assume ne: "nodes g \<noteq> []"
    let ?ds = "sort_reverse (\<lambda>x. x) (map (degree g) (nodes g))"
    have "descending (map (degree g) (nodes g)) ?ds"
      by (rule descending_sort_reverse)
    moreover have "degree_threshold_top2 g
        = Inr (?ds ! min (nat (top_2_percent_count g)) (number_of_nodes g - 1))"
      using ne rank_clamped [of "map (degree g) (nodes g)" g]
      by (simp add: degree_threshold_top2_def number_of_nodes_def)
    ultimately show "\<exists>ds. descending (map (degree g) (nodes g)) ds \<and>
              degree_threshold_top2 g
                = Inr (ds ! min (nat (top_2_percent_count g)) (number_of_nodes g - 1))"
      by blast
  qed
  have c2: "betweenness_centrality m \<noteq> [] \<longrightarrow>
        (\<exists>bs. descending (map snd (betweenness_centrality m)) bs \<and>
              betweenness_threshold_top2 g m
                = Inr (bs ! min (nat (top_2_percent_count g)) (length (betweenness_centrality m) - 1)))"
  proof
    assume ne: "betweenness_centrality m \<noteq> []"
    let ?bs = "sort_reverse (\<lambda>x. x) (map snd (betweenness_centrality m))"
    have "descending (map snd (betweenness_centrality m)) ?bs"
      by (rule descending_sort_reverse)
    moreover have "betweenness_threshold_top2 g m
        = Inr (?bs ! min (nat (top_2_percent_count g)) (length (betweenness_centrality m) - 1))"
      using ne rank_clamped [of "map snd (betweenness_centrality m)" g]
      by (simp add: betweenness_threshold_top2_def)
    ultimately show "\<exists>bs. descending (map snd (betweenness_centrality m)) bs \<and>
              betweenness_threshold_top2 g m
                = Inr (bs ! min (nat (top_2_percent_count g)) (length (betweenness_centrality m) - 1))"
      by blast
  qed
  have c3: "number_of_nodes g = 100 \<longrightarrow> top_2_percent_count g = 2"
    by (simp add: top_2_percent_count_div)
  have c4: "number_of_nodes g = 1 \<longrightarrow> top_2_percent_count g = 1"
    by (simp add: top_2_percent_count_div)
  have c5: "number_of_nodes g = 49 \<longrightarrow> top_2_percent_count g = 1"
    by (simp add: top_2_percent_count_div)
  from c0 c1 c2 c3 c4 c5 show ?thesis by blast
qed

text \<open>
  Claim C1 says that each threshold is the value at rank \<open>max 1 \<lfloor>0.02 N\<rfloor>\<close> of the
  descending-sorted list, so that at \<open>N = 100\<close>, where the cutoff count is 2, the threshold
  is the second largest value. The code uses the count as a 0-based index and takes the
  third largest. On the graph of 100 nodes the count is 2, the three largest degrees are
  10, 8 and 5 and the degree threshold is 5, not 8; three nodes, not two, reach it; the
  betweenness threshold is the third largest value 10/4851, not the second largest
  28/4851; and node 3, third of 100 by both metrics, is accepted as a leader of the top 2
  percent. On the graph of four nodes the count is 1 and
  the threshold is the second largest degree 2, not the largest 3.
\<close>

theorem leader_threshold_off_by_one:
  "number_of_nodes hub_graph = 100
   \<and> top_2_percent_count hub_graph = 2
   \<and> take 3 (sort_reverse (\<lambda>d. d) (map (degree hub_graph) (nodes hub_graph))) = [10, 8, 5]
   \<and> degree_threshold_top2 hub_graph = Inr 5
   \<and> filter (\<lambda>n. degree hub_graph n \<ge> 5) (nodes hub_graph) = [1, 2, 3]
   \<and> take 3 (sort_reverse (\<lambda>b. b) (map snd (betweenness_centrality hub_metrics)))
       = [45 / 4851, 28 / 4851, 10 / 4851]
   \<and> betweenness_threshold_top2 hub_graph hub_metrics = Inr (10 / 4851)
   \<and> find_fearless_leader hub_graph hub_metrics hub_config (neighbors hub_graph 22) [] = Inr (Some 3)
   \<and> degree_threshold_top2 kite_graph = Inr 2
   \<and> take 2 (sort_reverse (\<lambda>d. d) (map (degree kite_graph) (nodes kite_graph))) = [3, 2]"
  by code_simp

lemma leader_body_eq:
  assumes "n \<in> set excl \<or> n \<in> set (nodes g)"
  shows "leader_body g m cfg excl dt bt n (bc, bs) =
           Inr (if leader_qualifies g m cfg dt bt excl n \<and> bs < leader_score g m cfg n
                then (Some n, leader_score g m cfg n) else (bc, bs))"
  using assms
  by (auto simp add: leader_body_def leader_qualifies_def leader_score_def Let_def)

lemma leader_loop:
  assumes "\<forall>n\<in>set xs. n \<notin> set excl \<longrightarrow> n \<in> set (nodes g)"
  shows "\<exists>bc' bs'. for_each (leader_body g m cfg excl dt bt) xs (bc, bs) = Inr (bc', bs')
           \<and> bs \<le> bs'
           \<and> (\<forall>n\<in>set xs. leader_qualifies g m cfg dt bt excl n \<longrightarrow> leader_score g m cfg n \<le> bs')
           \<and> ((bc' = bc \<and> bs' = bs)
              \<or> (\<exists>l\<in>set xs. leader_qualifies g m cfg dt bt excl l \<and> bc' = Some l
                      \<and> leader_score g m cfg l = bs' \<and> bs < bs'))"
  using assms
proof (induction xs arbitrary: bc bs)
  case Nil
  then show ?case by simp
next
  case (Cons x xs)
  let ?Q = "leader_qualifies g m cfg dt bt excl"
  let ?sc = "leader_score g m cfg"
  have x: "x \<in> set excl \<or> x \<in> set (nodes g)" using Cons.prems by auto
  have rest: "\<forall>n\<in>set xs. n \<notin> set excl \<longrightarrow> n \<in> set (nodes g)" using Cons.prems by simp
  show ?case
  proof (cases "?Q x \<and> bs < ?sc x")
    case True
    from Cons.IH [OF rest, of "Some x" "?sc x"] obtain bc' bs' where
      r: "for_each (leader_body g m cfg excl dt bt) xs (Some x, ?sc x) = Inr (bc', bs')"
      and mono: "?sc x \<le> bs'"
      and ub: "\<forall>n\<in>set xs. ?Q n \<longrightarrow> ?sc n \<le> bs'"
      and w: "(bc' = Some x \<and> bs' = ?sc x) \<or> (\<exists>l\<in>set xs. ?Q l \<and> bc' = Some l \<and> ?sc l = bs' \<and> ?sc x < bs')"
      by blast
    have "for_each (leader_body g m cfg excl dt bt) (x # xs) (bc, bs) = Inr (bc', bs')"
      using True r by (simp add: leader_body_eq [OF x])
    moreover have "bs \<le> bs'" using True mono by simp
    moreover have "\<forall>n\<in>set (x # xs). ?Q n \<longrightarrow> ?sc n \<le> bs'" using ub mono by simp
    moreover have "\<exists>l\<in>set (x # xs). ?Q l \<and> bc' = Some l \<and> ?sc l = bs' \<and> bs < bs'"
      using w True by auto
    ultimately show ?thesis by blast
  next
    case False
    from Cons.IH [OF rest, of bc bs] obtain bc' bs' where
      r: "for_each (leader_body g m cfg excl dt bt) xs (bc, bs) = Inr (bc', bs')"
      and mono: "bs \<le> bs'"
      and ub: "\<forall>n\<in>set xs. ?Q n \<longrightarrow> ?sc n \<le> bs'"
      and w: "(bc' = bc \<and> bs' = bs) \<or> (\<exists>l\<in>set xs. ?Q l \<and> bc' = Some l \<and> ?sc l = bs' \<and> bs < bs')"
      by blast
    have "for_each (leader_body g m cfg excl dt bt) (x # xs) (bc, bs) = Inr (bc', bs')"
      using False r by (auto simp add: leader_body_eq [OF x])
    moreover have "\<forall>n\<in>set (x # xs). ?Q n \<longrightarrow> ?sc n \<le> bs'" using ub mono False by auto
    moreover have "(bc' = bc \<and> bs' = bs) \<or> (\<exists>l\<in>set (x # xs). ?Q l \<and> bc' = Some l \<and> ?sc l = bs' \<and> bs < bs')"
      using w by auto
    ultimately show ?thesis using mono by blast
  qed
qed

lemma leader_body_cases:
  assumes "leader_body g m cfg excl dt bt n st = Inr st'"
  shows "st' = st \<or> (fst st' = Some n \<and> n \<notin> set excl \<and> n \<in> set (nodes g))"
  using assms by (auto simp add: leader_body_def Let_def split: if_splits)

lemma find_fearless_leader_in_pool:
  assumes "find_fearless_leader g m cfg pool excl = Inr (Some l)"
  shows "l \<in> set pool \<and> l \<notin> set excl \<and> l \<in> set (nodes g)"
proof -
  from assms obtain dt bt st where
    r: "for_each (leader_body g m cfg excl dt bt) pool (None, 0) = Inr st" and st: "fst st = Some l"
    by (auto simp add: find_fearless_leader_def split: sum.splits)
  let ?I = "\<lambda>st. \<forall>l. fst st = Some l \<longrightarrow> l \<in> set pool \<and> l \<notin> set excl \<and> l \<in> set (nodes g)"
  have "?I st"
  proof (rule for_each_invariant [OF r, where I = ?I])
    show "?I (None, 0)" by simp
  next
    fix x s s'
    assume "x \<in> set pool" "?I s" "leader_body g m cfg excl dt bt x s = Inr s'"
    then show "?I s'" using leader_body_cases [of g m cfg excl dt bt x s s'] by auto
  qed
  with st show ?thesis by simp
qed






section \<open>Employee and handler candidates\<close>

lemma calculate_employee_score_spec:
  "calculate_employee_score g m cfg n (degree g n) (employee_expected_contacts cfg)
     = employee_score_spec g m cfg n"
  by (simp add: calculate_employee_score_def employee_score_spec_def Let_def)

text \<open>
  Claim C3. Employee candidate identification returns exactly the graph nodes whose degree
  lies in \<open>[E - T, E + T]\<close>, both ends included and \<open>E - T - 1\<close> excluded, each paired with
  the score of the specification, sorted descending by score.
\<close>

theorem identify_employee_candidates_window:
  "mset (map fst (identify_employee_candidates g m cfg))
     = mset (filter (\<lambda>n. employee_expected_contacts cfg - employee_tolerance cfg \<le> degree g n
                        \<and> degree g n \<le> employee_expected_contacts cfg + employee_tolerance cfg)
               (nodes g))
   \<and> (\<forall>c\<in>set (identify_employee_candidates g m cfg). snd c = employee_score_spec g m cfg (fst c))
   \<and> sorted_wrt (\<lambda>a b. snd a \<ge> snd b) (identify_employee_candidates g m cfg)
   \<and> (\<forall>n\<in>set (nodes g).
        0 \<le> employee_tolerance cfg
        \<and> (degree g n = employee_expected_contacts cfg - employee_tolerance cfg
           \<or> degree g n = employee_expected_contacts cfg + employee_tolerance cfg)
        \<longrightarrow> n \<in> fst ` set (identify_employee_candidates g m cfg))
   \<and> (\<forall>n. degree g n = employee_expected_contacts cfg - employee_tolerance cfg - 1
        \<longrightarrow> n \<notin> fst ` set (identify_employee_candidates g m cfg))"
proof -
  let ?E = "employee_expected_contacts cfg"
  let ?T = "employee_tolerance cfg"
  let ?in = "\<lambda>n. ?E - ?T \<le> degree g n \<and> degree g n \<le> ?E + ?T"
  let ?cs = "map (\<lambda>n. (n, calculate_employee_score g m cfg n (degree g n) ?E)) (filter ?in (nodes g))"
  have eq: "identify_employee_candidates g m cfg = sort_reverse snd ?cs"
    by (simp add: identify_employee_candidates_def Let_def)
  have "mset (map fst (sort_reverse snd ?cs)) = mset (map fst ?cs)"
    by (simp only: mset_map mset_sort_reverse)
  also have "map fst ?cs = filter ?in (nodes g)"
    by (simp add: comp_def)
  finally have a: "mset (map fst (identify_employee_candidates g m cfg)) = mset (filter ?in (nodes g))"
    by (simp only: eq)
  have st: "set (identify_employee_candidates g m cfg) = set ?cs"
    by (simp only: eq set_sort_reverse)
  have b: "\<forall>c\<in>set (identify_employee_candidates g m cfg). snd c = employee_score_spec g m cfg (fst c)"
    unfolding st by (auto simp add: calculate_employee_score_spec)
  have c: "sorted_wrt (\<lambda>a b. snd a \<ge> snd b) (identify_employee_candidates g m cfg)"
    unfolding eq by (rule sorted_sort_reverse)
  have fs: "fst ` set (identify_employee_candidates g m cfg) = {n \<in> set (nodes g). ?in n}"
    unfolding st by (auto simp add: image_iff)
  have d: "\<forall>n\<in>set (nodes g). 0 \<le> ?T \<and> (degree g n = ?E - ?T \<or> degree g n = ?E + ?T)
             \<longrightarrow> n \<in> fst ` set (identify_employee_candidates g m cfg)"
    unfolding fs by auto
  have e: "\<forall>n. degree g n = ?E - ?T - 1 \<longrightarrow> n \<notin> fst ` set (identify_employee_candidates g m cfg)"
    unfolding fs by auto
  from a b c d e show ?thesis by blast
qed

theorem identify_employee_candidates_window_witness:
  "identify_employee_candidates star_graph star_metrics star_config = [(2, 4 / 10), (3, 4 / 10)]
   \<and> employee_score_spec star_graph star_metrics star_config 2 = 4 / 10
   \<and> employee_score_spec star_graph star_metrics star_config 3 = 4 / 10
   \<and> 2 \<in> set (nodes star_graph) \<and> 0 \<le> employee_tolerance star_config
   \<and> degree star_graph 2 = employee_expected_contacts star_config - employee_tolerance star_config
   \<and> 2 \<in> fst ` set (identify_employee_candidates star_graph star_metrics star_config)
   \<and> degree star_graph 4 = employee_expected_contacts star_config - employee_tolerance star_config - 1
   \<and> 4 \<notin> fst ` set (identify_employee_candidates star_graph star_metrics star_config)"
proof -
  have r: "identify_employee_candidates star_graph star_metrics star_config = [(2, 4 / 10), (3, 4 / 10)]"
    by (simp add: star_graph_def star_metrics_def star_config_def ev
        identify_employee_candidates_def calculate_employee_score_def)
  have h: "2 \<in> set (nodes star_graph) \<and> 0 \<le> employee_tolerance star_config
     \<and> degree star_graph 2 = employee_expected_contacts star_config - employee_tolerance star_config
     \<and> degree star_graph 4 = employee_expected_contacts star_config - employee_tolerance star_config - 1"
    by (simp add: star_graph_def star_config_def ev)
  from identify_employee_candidates_window [of star_graph star_metrics star_config] r h
  show ?thesis by auto
qed

lemma handler_score_eq:
  "(let score = calculate_handler_score g m cfg n (degree g n)
    in if handlers_expected_contacts_min cfg \<le> degree g n \<and> degree g n \<le> handlers_expected_contacts_max cfg
       then score * (15 / 10) else score) = handler_score_spec g m cfg n"
  by (simp add: calculate_handler_score_def handler_score_spec_def Let_def)

lemma handler_loop:
  assumes "set pool \<subseteq> set (nodes g)"
  shows "for_each (handler_body g m cfg) pool acc
           = Inr (acc @ map (\<lambda>n. (n, handler_score_spec g m cfg n))
                          (filter (\<lambda>n. handlers_expected_contacts_min cfg - 5 \<le> degree g n
                                       \<and> degree g n \<le> handlers_expected_contacts_max cfg + 5) pool))"
  using assms
proof (induction pool arbitrary: acc)
  case Nil
  then show ?case by simp
next
  case (Cons x xs)
  have x: "x \<in> set (nodes g)" and xs: "set xs \<subseteq> set (nodes g)" using Cons.prems by auto
  show ?case
  proof (cases "handlers_expected_contacts_min cfg - 5 \<le> degree g x
                 \<and> degree g x \<le> handlers_expected_contacts_max cfg + 5")
    case True
    then have "handler_body g m cfg x acc = Inr (acc @ [(x, handler_score_spec g m cfg x)])"
      using x handler_score_eq [of g m cfg x] by (simp add: handler_body_def Let_def)
    then show ?thesis using True Cons.IH [OF xs] by simp
  next
    case False
    then have "handler_body g m cfg x acc = Inr acc"
      using x by (auto simp add: handler_body_def Let_def)
    then show ?thesis using False Cons.IH [OF xs] by auto
  qed
qed

lemma find_handler_candidates_eq:
  assumes "set pool \<subseteq> set (nodes g)"
  shows "find_handler_candidates g m cfg pool
           = Inr (sort_reverse snd
                   (map (\<lambda>n. (n, handler_score_spec g m cfg n))
                      (filter (\<lambda>n. handlers_expected_contacts_min cfg - 5 \<le> degree g n
                                   \<and> degree g n \<le> handlers_expected_contacts_max cfg + 5) pool)))"
  using handler_loop [OF assms, of m cfg "[]"] by (simp add: find_handler_candidates_def)

lemma find_handler_candidates_ids:
  assumes "find_handler_candidates g m cfg pool = Inr hc"
    and "set pool \<subseteq> set (nodes g)"
    and "distinct pool"
  shows "distinct (map fst hc) \<and> fst ` set hc \<subseteq> set pool"
proof -
  let ?in = "\<lambda>n. handlers_expected_contacts_min cfg - 5 \<le> degree g n
                  \<and> degree g n \<le> handlers_expected_contacts_max cfg + 5"
  let ?cs = "map (\<lambda>n. (n, handler_score_spec g m cfg n)) (filter ?in pool)"
  have hc: "hc = sort_reverse snd ?cs"
    using assms(1) find_handler_candidates_eq [OF assms(2), of m cfg] by simp
  have "mset (map fst hc) = mset (map fst ?cs)"
    unfolding hc by (simp only: mset_map mset_sort_reverse)
  also have "map fst ?cs = filter ?in pool" by (simp add: comp_def)
  finally have ms: "mset (map fst hc) = mset (filter ?in pool)" .
  have "distinct (filter ?in pool)" using assms(3) by simp
  then have d: "distinct (map fst hc)" using ms by (metis mset_eq_imp_distinct_iff)
  have "set (map fst hc) = set (filter ?in pool)" using ms by (rule mset_eq_setD)
  then have "fst ` set hc \<subseteq> set pool" by auto
  with d show ?thesis by simp
qed

text \<open>
  Claim C4. Handler candidate identification, on ids that are nodes of the graph, returns
  exactly the given nodes whose degree lies in the widened window \<open>[Hmin - 5, Hmax + 5]\<close>,
  each with the score of the specification (base 0.5, the literal band, the city and
  betweenness bonuses, times 1.5 inside \<open>[Hmin, Hmax]\<close>), sorted descending by score.
\<close>

theorem find_handler_candidates_window:
  assumes "set pool \<subseteq> set (nodes g)"
  shows "\<exists>cs. find_handler_candidates g m cfg pool = Inr cs
           \<and> mset (map fst cs)
               = mset (filter (\<lambda>n. handlers_expected_contacts_min cfg - 5 \<le> degree g n
                                  \<and> degree g n \<le> handlers_expected_contacts_max cfg + 5) pool)
           \<and> (\<forall>c\<in>set cs. snd c = handler_score_spec g m cfg (fst c))
           \<and> sorted_wrt (\<lambda>a b. snd a \<ge> snd b) cs"
proof -
  let ?in = "\<lambda>n. handlers_expected_contacts_min cfg - 5 \<le> degree g n
                  \<and> degree g n \<le> handlers_expected_contacts_max cfg + 5"
  let ?cs = "map (\<lambda>n. (n, handler_score_spec g m cfg n)) (filter ?in pool)"
  have eq: "find_handler_candidates g m cfg pool = Inr (sort_reverse snd ?cs)"
    by (rule find_handler_candidates_eq [OF assms])
  have "mset (map fst (sort_reverse snd ?cs)) = mset (map fst ?cs)"
    by (simp only: mset_map mset_sort_reverse)
  also have "map fst ?cs = filter ?in pool"
    by (simp add: comp_def)
  finally have a: "mset (map fst (sort_reverse snd ?cs)) = mset (filter ?in pool)" .
  have b: "\<forall>c\<in>set (sort_reverse snd ?cs). snd c = handler_score_spec g m cfg (fst c)"
    by (auto simp add: set_sort_reverse)
  have c: "sorted_wrt (\<lambda>a b. snd a \<ge> snd b) (sort_reverse snd ?cs)"
    by (rule sorted_sort_reverse)
  from eq a b c show ?thesis by blast
qed

theorem find_handler_candidates_window_witness:
  "set [2, 3, 1] \<subseteq> set (nodes star_graph)
   \<and> find_handler_candidates star_graph star_metrics star_config [2, 3, 1]
       = Inr [(1, 1), (2, 3 / 4), (3, 3 / 4)]
   \<and> handler_score_spec star_graph star_metrics star_config 1 = 1
   \<and> handler_score_spec star_graph star_metrics star_config 2 = 3 / 4"
proof -
  have h: "set [2, 3, 1] \<subseteq> set (nodes star_graph)"
    by (simp add: star_graph_def ev)
  have r: "find_handler_candidates star_graph star_metrics star_config [2, 3, 1]
       = Inr [(1, 1), (2, 3 / 4), (3, 3 / 4)]"
    by (simp add: star_graph_def star_metrics_def star_config_def ev
        find_handler_candidates_def handler_body_def calculate_handler_score_def)
  from find_handler_candidates_window [OF h, of star_metrics star_config] r h
  show ?thesis by auto
qed

section \<open>Scenario B: the middlemen of a handler triple\<close>

lemma middleman_body_cases:
  assumes "middleman_body g m cfg n st = Inr st'"
  shows "st' = st \<or> fst st' = Some n"
  using assms by (auto simp add: middleman_body_def Let_def split: if_splits)

lemma find_best_middleman_in_pool:
  assumes "find_best_middleman_for_handler g m cfg pool = Inr (Some x)"
  shows "x \<in> set pool"
proof -
  from assms obtain st where
    r: "for_each (middleman_body g m cfg) pool (None, 0) = Inr st" and st: "fst st = Some x"
    by (auto simp add: find_best_middleman_for_handler_def split: sum.splits)
  let ?I = "\<lambda>st. \<forall>l. fst st = Some l \<longrightarrow> l \<in> set pool"
  have "?I st"
  proof (rule for_each_invariant [OF r, where I = ?I])
    show "?I (None, 0)" by simp
  next
    fix y s s'
    assume "y \<in> set pool" "?I s" "middleman_body g m cfg y s = Inr s'"
    then show "?I s'" using middleman_body_cases [of g m cfg y s s'] by auto
  qed
  with st show ?thesis by simp
qed

lemma handler_middleman_result:
  assumes "handler_middleman g m cfg e hs h = Inr (Some x)"
  shows "x \<in> set (neighbors g h) \<and> x \<noteq> e \<and> x \<notin> set hs \<and> h \<in> set (nodes g)"
proof -
  from assms have h: "h \<in> set (nodes g)"
    by (auto simp add: handler_middleman_def get_neighbors_def split: if_splits)
  with assms have "find_best_middleman_for_handler g m cfg
      (filter (\<lambda>n. n \<noteq> e \<and> n \<notin> set hs) (neighbors g h)) = Inr (Some x)"
    by (simp add: handler_middleman_def get_neighbors_def)
  from find_best_middleman_in_pool [OF this] h show ?thesis by simp
qed

lemma middlemen_loop:
  assumes "for_each (middlemen_body g m cfg e hs) xs acc = Inr ms"
  shows "ms = acc @ concat (map (\<lambda>h. kept_middleman (handler_middleman g m cfg e hs h)) xs)
         \<and> list_all (\<lambda>h. \<exists>r. handler_middleman g m cfg e hs h = Inr r) xs"
  using assms
proof (induction xs arbitrary: acc)
  case Nil
  then show ?case by simp
next
  case (Cons x xs)
  from Cons.prems obtain acc1 where b: "middlemen_body g m cfg e hs x acc = Inr acc1"
    and r: "for_each (middlemen_body g m cfg e hs) xs acc1 = Inr ms"
    by (auto split: sum.splits)
  from b obtain res where hm: "handler_middleman g m cfg e hs x = Inr res"
    and acc1: "acc1 = acc @ kept_middleman (Inr res)"
    by (auto simp add: middlemen_body_def kept_middleman_def split: sum.splits option.splits if_splits)
  from Cons.IH [OF r] hm acc1 show ?case by simp
qed

lemma kept_middleman_length: "length (kept_middleman r) \<le> 1"
  by (simp add: kept_middleman_def split: sum.splits option.splits)

lemma kept_middleman_single:
  assumes "kept_middleman r = [x]"
  shows "r = Inr (Some x) \<and> x \<noteq> 0"
  using assms by (auto simp add: kept_middleman_def split: sum.splits option.splits if_splits)

lemma three_kept:
  assumes "length (kept_middleman a @ kept_middleman b @ kept_middleman c) = 3"
  shows "\<exists>x y z. a = Inr (Some x) \<and> b = Inr (Some y) \<and> c = Inr (Some z)
           \<and> x \<noteq> 0 \<and> y \<noteq> 0 \<and> z \<noteq> 0
           \<and> kept_middleman a @ kept_middleman b @ kept_middleman c = [x, y, z]"
proof -
  have la: "length (kept_middleman a) \<le> 1" and lb: "length (kept_middleman b) \<le> 1"
    and lc: "length (kept_middleman c) \<le> 1"
    by (rule kept_middleman_length)+
  with assms have "length (kept_middleman a) = 1" "length (kept_middleman b) = 1"
    "length (kept_middleman c) = 1"
    by auto
  then obtain x y z where k: "kept_middleman a = [x]" "kept_middleman b = [y]" "kept_middleman c = [z]"
    by (auto simp add: length_Suc_conv)
  with kept_middleman_single [of a x] kept_middleman_single [of b y] kept_middleman_single [of c z]
  show ?thesis by auto
qed

lemma combo_body_b_cases:
  assumes "combo_body_b set_iter g m cfg e combo st = Inr st'"
  shows "st' = st
         \<or> (\<exists>ms l common.
              for_each (middlemen_body g m cfg e (map fst combo)) (map fst combo) [] = Inr ms
              \<and> length ms = 3 \<and> distinct ms
              \<and> find_fearless_leader g m cfg (set_iter common)
                    (set_iter (set (map fst combo @ [e] @ ms))) = Inr (Some l)
              \<and> l \<noteq> 0
              \<and> snd st < score_scenario_b_configuration g m cfg e (map fst combo) ms l
              \<and> st' = (Some \<lparr>employee = e, handlers = map fst combo, boris = ms ! 0,
                              fearless_leader = l,
                              score = score_scenario_b_configuration g m cfg e (map fst combo) ms l,
                              scenario = ''B'', morris = ms ! 1, horace = ms ! 2\<rparr>,
                        score_scenario_b_configuration g m cfg e (map fst combo) ms l))"
proof -
  let ?hs = "map fst combo"
  from assms obtain ms where
    ms: "for_each (middlemen_body g m cfg e ?hs) ?hs [] = Inr ms"
    by (auto simp add: combo_body_b_def Let_def split: sum.splits)
  show ?thesis
  proof (cases "length ms \<noteq> 3 \<or> card (set ms) \<noteq> 3")
    case True
    with assms ms show ?thesis by (auto simp add: combo_body_b_def Let_def)
  next
    case False
    then have len: "length ms = 3" and card: "card (set ms) = 3" by auto
    then have d: "distinct ms" by (simp add: card_distinct)
    from assms ms False obtain ns0 where ns0: "get_neighbors g (ms ! 0) = Inr ns0"
      by (auto simp add: combo_body_b_def Let_def split: sum.splits)
    from assms ms False ns0 obtain common0 where
      c0: "for_each (common_body g) (tl ms) (set ns0) = Inr common0"
      by (auto simp add: combo_body_b_def Let_def split: sum.splits)
    let ?ex = "set (?hs @ [e] @ ms)"
    let ?common = "common0 - ?ex"
    from assms ms False ns0 c0 obtain lc where
      lc: "find_fearless_leader g m cfg (set_iter ?common) (set_iter ?ex) = Inr lc"
      by (auto simp add: combo_body_b_def Let_def split: sum.splits)
    have body: "combo_body_b set_iter g m cfg e combo st =
      (case lc of None \<Rightarrow> Inr st
       | Some leader \<Rightarrow>
           if truthy lc then
             let config_score = score_scenario_b_configuration g m cfg e ?hs ms leader
             in if config_score > snd st then
                  Inr (Some \<lparr>employee = e, handlers = ?hs, boris = ms ! 0, fearless_leader = leader,
                             score = config_score, scenario = ''B'',
                             morris = ms ! 1, horace = ms ! 2\<rparr>, config_score)
                else Inr st
           else Inr st)"
      using ms False ns0 c0 lc by (simp add: combo_body_b_def Let_def)
    show ?thesis
    proof (cases lc)
      case None
      with body assms show ?thesis by simp
    next
      case (Some l)
      show ?thesis
      proof (cases "l \<noteq> 0 \<and> snd st < score_scenario_b_configuration g m cfg e ?hs ms l")
        case True
        with body assms Some have
          "st' = (Some \<lparr>employee = e, handlers = ?hs, boris = ms ! 0, fearless_leader = l,
                        score = score_scenario_b_configuration g m cfg e ?hs ms l,
                        scenario = ''B'', morris = ms ! 1, horace = ms ! 2\<rparr>,
                  score_scenario_b_configuration g m cfg e ?hs ms l)"
          by (simp add: Let_def)
        with ms len d lc Some True show ?thesis by blast
      next
        case False
        then have "combo_body_b set_iter g m cfg e combo st = Inr st"
          using body Some by (auto simp add: Let_def)
        with assms show ?thesis by simp
      qed
    qed
  qed
qed

text \<open>
  Claim C5. For a handler triple examined by the Scenario B search, a configuration is
  recorded (the state \<open>(best_result, best_score)\<close> changes) only if each of the three
  per-handler middleman searches returned a candidate and the three middlemen are pairwise
  distinct; and a triple whose three searches returned candidates that are not pairwise
  distinct is skipped, the state left unchanged, whatever the candidates are.
\<close>

theorem scenario_b_middlemen_distinct:
  assumes "length handler_combo = 3"
  shows "(combo_body_b set_iter g m cfg employee_id handler_combo st = Inr st' \<and> st' \<noteq> st \<longrightarrow>
            (\<exists>m1 m2 m3 r.
               map (handler_middleman g m cfg employee_id (map fst handler_combo)) (map fst handler_combo)
                 = [Inr (Some m1), Inr (Some m2), Inr (Some m3)]
               \<and> distinct [m1, m2, m3]
               \<and> fst st' = Some r \<and> boris r = m1 \<and> morris r = m2 \<and> horace r = m3))
         \<and> (map (handler_middleman g m cfg employee_id (map fst handler_combo)) (map fst handler_combo)
                 = [Inr (Some k1), Inr (Some k2), Inr (Some k3)]
             \<and> \<not> distinct [k1, k2, k3] \<longrightarrow>
             combo_body_b set_iter g m cfg employee_id handler_combo st = Inr st)"
proof -
  let ?hs = "map fst handler_combo"
  let ?hm = "handler_middleman g m cfg employee_id ?hs"
  from assms obtain c1 c2 c3 where combo: "handler_combo = [c1, c2, c3]"
    by (auto simp add: length_Suc_conv numeral_3_eq_3)
  have hs: "?hs = [fst c1, fst c2, fst c3]" by (simp add: combo)
  have a: "combo_body_b set_iter g m cfg employee_id handler_combo st = Inr st' \<and> st' \<noteq> st \<longrightarrow>
            (\<exists>m1 m2 m3 r. map ?hm ?hs = [Inr (Some m1), Inr (Some m2), Inr (Some m3)]
               \<and> distinct [m1, m2, m3]
               \<and> fst st' = Some r \<and> boris r = m1 \<and> morris r = m2 \<and> horace r = m3)"
  proof
    assume h: "combo_body_b set_iter g m cfg employee_id handler_combo st = Inr st' \<and> st' \<noteq> st"
    with combo_body_b_cases [of set_iter g m cfg employee_id handler_combo st st']
    obtain ms r where ms: "for_each (middlemen_body g m cfg employee_id ?hs) ?hs [] = Inr ms"
      and len: "length ms = 3" and d: "distinct ms"
      and r: "fst st' = Some r" "boris r = ms ! 0" "morris r = ms ! 1" "horace r = ms ! 2"
      by auto
    from middlemen_loop [OF ms] have
      mseq: "ms = kept_middleman (?hm (fst c1)) @ kept_middleman (?hm (fst c2)) @ kept_middleman (?hm (fst c3))"
      by (simp add: hs)
    from three_kept [of "?hm (fst c1)" "?hm (fst c2)" "?hm (fst c3)"] len mseq
    obtain x y z where xyz: "?hm (fst c1) = Inr (Some x)" "?hm (fst c2) = Inr (Some y)"
      "?hm (fst c3) = Inr (Some z)" "ms = [x, y, z]"
      by auto
    have "map ?hm ?hs = [Inr (Some x), Inr (Some y), Inr (Some z)]"
      using xyz(1-3) by (simp add: hs)
    moreover have "distinct [x, y, z]" using d xyz(4) by simp
    moreover have "boris r = x \<and> morris r = y \<and> horace r = z" using r xyz(4) by simp
    ultimately have "map ?hm ?hs = [Inr (Some x), Inr (Some y), Inr (Some z)]
               \<and> distinct [x, y, z]
               \<and> fst st' = Some r \<and> boris r = x \<and> morris r = y \<and> horace r = z"
      using r(1) by simp
    then show "\<exists>m1 m2 m3 r. map ?hm ?hs = [Inr (Some m1), Inr (Some m2), Inr (Some m3)]
               \<and> distinct [m1, m2, m3]
               \<and> fst st' = Some r \<and> boris r = m1 \<and> morris r = m2 \<and> horace r = m3"
      by (intro exI [of _ x] exI [of _ y] exI [of _ z] exI [of _ r])
  qed
  have b: "map ?hm ?hs = [Inr (Some k1), Inr (Some k2), Inr (Some k3)] \<and> \<not> distinct [k1, k2, k3] \<longrightarrow>
             combo_body_b set_iter g m cfg employee_id handler_combo st = Inr st"
  proof
    assume h: "map ?hm ?hs = [Inr (Some k1), Inr (Some k2), Inr (Some k3)] \<and> \<not> distinct [k1, k2, k3]"
    then have k: "?hm (fst c1) = Inr (Some k1)" "?hm (fst c2) = Inr (Some k2)"
      "?hm (fst c3) = Inr (Some k3)"
      by (simp_all add: hs)
    have tot: "\<exists>s'. for_each (middlemen_body g m cfg employee_id ?hs) ?hs [] = Inr s' \<and> True"
    proof (rule for_each_total [where I = "\<lambda>_. True"])
      show True ..
    next
      fix x s
      assume "x \<in> set ?hs" "True"
      then obtain kk where "?hm x = Inr (Some kk)" using k by (auto simp add: hs)
      then show "\<exists>s'. middlemen_body g m cfg employee_id ?hs x s = Inr s' \<and> True"
        by (simp add: middlemen_body_def)
    qed
    then obtain ms where ms: "for_each (middlemen_body g m cfg employee_id ?hs) ?hs [] = Inr ms"
      by blast
    from middlemen_loop [OF ms] have
      mseq: "ms = kept_middleman (Inr (Some k1)) @ kept_middleman (Inr (Some k2)) @ kept_middleman (Inr (Some k3))"
      using k by (simp add: hs)
    have "length ms \<noteq> 3 \<or> card (set ms) \<noteq> 3"
    proof (cases "length ms = 3")
      case True
      from three_kept [of "Inr (Some k1)" "Inr (Some k2)" "Inr (Some k3)"] True mseq
      have "ms = [k1, k2, k3]" by auto
      with h have "\<not> distinct ms" by simp
      with True show ?thesis using card_distinct [of ms] distinct_card [of ms] by auto
    next
      case False
      then show ?thesis by simp
    qed
    with ms show "combo_body_b set_iter g m cfg employee_id handler_combo st = Inr st"
      by (auto simp add: combo_body_b_def Let_def)
  qed
  from a b show ?thesis by blast
qed

theorem scenario_b_middlemen_distinct_witness:
  "length [(2 :: node, 3 / 4 :: rat), (3, 3 / 4), (4, 3 / 4)] = 3
   \<and> combo_body_b sorted_list_of_set (cell_graph 6 [(1, ''Metropolis'')]) cell_metrics cell_config 1
        [(2, 3 / 4), (3, 3 / 4), (4, 3 / 4)] (None, 0)
      = Inr (Some \<lparr>employee = 1, handlers = [2, 3, 4], boris = 5, fearless_leader = 8,
                    score = 5, scenario = ''B'', morris = 6, horace = 7\<rparr>, 5)
   \<and> (\<exists>m1 m2 m3 r.
         map (handler_middleman (cell_graph 6 [(1, ''Metropolis'')]) cell_metrics cell_config 1
                (map fst [(2 :: node, 3 / 4 :: rat), (3, 3 / 4), (4, 3 / 4)]))
           (map fst [(2 :: node, 3 / 4 :: rat), (3, 3 / 4), (4, 3 / 4)])
           = [Inr (Some m1), Inr (Some m2), Inr (Some m3)]
         \<and> distinct [m1, m2, m3]
         \<and> fst (Some \<lparr>employee = 1, handlers = [2, 3, 4], boris = 5, fearless_leader = 8,
                          score = 5, scenario = ''B'', morris = 6, horace = 7\<rparr>, 5 :: rat) = Some r
         \<and> boris r = m1 \<and> morris r = m2 \<and> horace r = m3)
   \<and> map (handler_middleman (cell_graph 5 [(1, ''Metropolis'')]) cell_metrics cell_config 1
             (map fst [(2 :: node, 3 / 4 :: rat), (3, 3 / 4), (4, 3 / 4)]))
        (map fst [(2 :: node, 3 / 4 :: rat), (3, 3 / 4), (4, 3 / 4)])
        = [Inr (Some 5), Inr (Some 5), Inr (Some 7)]
   \<and> \<not> distinct [5, 5, 7 :: node]
   \<and> combo_body_b sorted_list_of_set (cell_graph 5 [(1, ''Metropolis'')]) cell_metrics cell_config 1
        [(2, 3 / 4), (3, 3 / 4), (4, 3 / 4)] (None, 0) = Inr (None, 0)"
proof -
  let ?combo = "[(2 :: node, 3 / 4 :: rat), (3, 3 / 4), (4, 3 / 4)]"
  let ?r = "\<lparr>employee = 1, handlers = [2, 3, 4], boris = 5, fearless_leader = 8,
             score = 5, scenario = ''B'', morris = 6, horace = 7\<rparr>"
  let ?g6 = "cell_graph 6 [(1, ''Metropolis'')]"
  let ?g5 = "cell_graph 5 [(1, ''Metropolis'')]"
  have len: "length ?combo = 3" by simp
  have rec: "combo_body_b sorted_list_of_set ?g6 cell_metrics cell_config 1 ?combo (None, 0) = Inr (Some ?r, 5)"
    by code_simp
  have ne: "(Some ?r, 5 :: rat) \<noteq> (None, 0)" by simp
  have dup: "map (handler_middleman ?g5 cell_metrics cell_config 1 (map fst ?combo))
        (map fst ?combo) = [Inr (Some 5), Inr (Some 5), Inr (Some 7)]"
    by code_simp
  have nd: "\<not> distinct [5, 5, 7 :: node]" by simp
  note t6 = scenario_b_middlemen_distinct [OF len, of sorted_list_of_set ?g6
      cell_metrics cell_config 1 "(None, 0)" "(Some ?r, 5)"]
  note t5 = scenario_b_middlemen_distinct [OF len, of sorted_list_of_set ?g5
      cell_metrics cell_config 1 "(None, 0)" _ 5 5 7]
  have ex: "\<exists>m1 m2 m3 r.
         map (handler_middleman ?g6 cell_metrics cell_config 1 (map fst ?combo)) (map fst ?combo)
           = [Inr (Some m1), Inr (Some m2), Inr (Some m3)]
         \<and> distinct [m1, m2, m3]
         \<and> fst (Some ?r, 5 :: rat) = Some r \<and> boris r = m1 \<and> morris r = m2 \<and> horace r = m3"
    by (rule mp [OF conjunct1 [OF t6]]) (rule conjI [OF rec ne])
  have skip: "combo_body_b sorted_list_of_set ?g5 cell_metrics cell_config 1 ?combo (None, 0) = Inr (None, 0)"
    by (rule mp [OF conjunct2 [OF t5]]) (rule conjI [OF dup nd])
  show ?thesis
    by (intro conjI) (rule len rec ex dup nd skip)+
qed

section \<open>Distinct roles\<close>

lemma boris_body_cases:
  assumes "boris_body g m cfg e hs cand acc = Inr acc'"
  shows "acc' = acc
         \<or> (\<exists>l. fst cand \<noteq> e \<and> fst cand \<in> set (nodes g)
                \<and> find_fearless_leader g m cfg (neighbors g (fst cand)) (hs @ [e]) = Inr (Some l)
                \<and> l \<noteq> 0
                \<and> acc' = acc @ [\<lparr>employee = e, handlers = hs, boris = fst cand, fearless_leader = l,
                                  score = score_scenario_a_configuration g m cfg e hs (fst cand) l,
                                  scenario = ''A''\<rparr>])"
  using assms
  by (auto simp add: boris_body_def get_neighbors_def Let_def
      split: if_splits sum.splits option.splits)

lemma boris_body_roles:
  assumes "boris_body g m cfg e hs cand acc = Inr acc'"
    and "simple_graph g"
    and "length hs = 3" and "distinct hs" and "e \<notin> set hs" and "fst cand \<notin> set hs"
    and "list_all (\<lambda>r. employee r = e \<and> length (handlers r) = 3 \<and> distinct (roles_a r)) acc"
  shows "list_all (\<lambda>r. employee r = e \<and> length (handlers r) = 3 \<and> distinct (roles_a r)) acc'"
proof -
  from boris_body_cases [OF assms(1)] consider (same) "acc' = acc"
    | (new) l where "fst cand \<noteq> e" "fst cand \<in> set (nodes g)"
        "find_fearless_leader g m cfg (neighbors g (fst cand)) (hs @ [e]) = Inr (Some l)"
        "acc' = acc @ [\<lparr>employee = e, handlers = hs, boris = fst cand, fearless_leader = l,
                        score = score_scenario_a_configuration g m cfg e hs (fst cand) l,
                        scenario = ''A''\<rparr>]"
    by blast
  then show ?thesis
  proof cases
    case same
    with assms(7) show ?thesis by simp
  next
    case new
    from find_fearless_leader_in_pool [OF new(3)]
    have l: "l \<in> set (neighbors g (fst cand))" "l \<notin> set hs" "l \<noteq> e" by auto
    from simple_graph_no_loop [OF assms(2) new(2)] l(1) have "l \<noteq> fst cand" by auto
    with l new(1) assms(3-6) have
      "distinct (roles_a \<lparr>employee = e, handlers = hs, boris = fst cand, fearless_leader = l,
                        score = score_scenario_a_configuration g m cfg e hs (fst cand) l,
                        scenario = ''A''\<rparr>)"
      by (auto simp add: roles_a_def)
    with new(4) assms(3,7) show ?thesis by simp
  qed
qed

lemma combo_body_a_roles:
  assumes "combo_body_a g m cfg e ns combo acc = Inr acc'"
    and "simple_graph g"
    and "length combo = 3" and "distinct (map fst combo)" and "e \<notin> fst ` set combo"
    and "list_all (\<lambda>r. employee r = e \<and> length (handlers r) = 3 \<and> distinct (roles_a r)) acc"
  shows "list_all (\<lambda>r. employee r = e \<and> length (handlers r) = 3 \<and> distinct (roles_a r)) acc'"
proof -
  let ?hs = "map fst combo"
  let ?pb = "sort_reverse snd (map (\<lambda>nb. (nb, betweenness m nb))
              (filter (\<lambda>nb. nb \<notin> set ?hs \<and> betweenness m nb > 1 / 1000) ns))"
  let ?I = "list_all (\<lambda>r. employee r = e \<and> length (handlers r) = 3 \<and> distinct (roles_a r))"
  show ?thesis
  proof (cases "?pb = []")
    case True
    with assms(1,6) show ?thesis by (simp add: combo_body_a_def Let_def)
  next
    case False
    with assms(1) have r: "for_each (boris_body g m cfg e ?hs) (take 5 ?pb) acc = Inr acc'"
      by (simp add: combo_body_a_def Let_def)
    show ?thesis
    proof (rule for_each_invariant [OF r, where I = ?I])
      show "?I acc" by (rule assms(6))
    next
      fix cand s s'
      assume c: "cand \<in> set (take 5 ?pb)" and i: "?I s" and b: "boris_body g m cfg e ?hs cand s = Inr s'"
      from c have "cand \<in> set ?pb" by (rule in_set_takeD)
      then have "fst cand \<notin> set ?hs" by (force simp add: set_sort_reverse)
      with boris_body_roles [OF b assms(2)] assms(3-5) i show "?I s'" by simp
    qed
  qed
qed

lemma detect_scenario_a_roles:
  assumes "detect_scenario_a g m cfg e = Inr rs" and "simple_graph g"
  shows "list_all (\<lambda>r. employee r = e \<and> length (handlers r) = 3 \<and> distinct (roles_a r)) rs"
proof -
  let ?I = "list_all (\<lambda>r. employee r = e \<and> length (handlers r) = 3 \<and> distinct (roles_a r))"
  from assms(1) have e: "e \<in> set (nodes g)"
    by (auto simp add: detect_scenario_a_def get_neighbors_def split: if_splits)
  from assms(2) have wf: "wf_graph g" by (simp add: simple_graph_def)
  from wf_graph_neighbors [OF wf e] have ns: "distinct (neighbors g e)" "set (neighbors g e) \<subseteq> set (nodes g)"
    by auto
  from assms(1) e obtain hc where hc: "find_handler_candidates g m cfg (neighbors g e) = Inr hc"
    by (auto simp add: detect_scenario_a_def get_neighbors_def split: sum.splits)
  from find_handler_candidates_ids [OF hc ns(2) ns(1)]
  have hcd: "distinct (map fst hc)" and hcs: "fst ` set hc \<subseteq> set (neighbors g e)" by auto
  show ?thesis
  proof (cases "length hc < 3")
    case True
    with assms(1) e hc have "rs = []" by (simp add: detect_scenario_a_def get_neighbors_def)
    then show ?thesis by simp
  next
    case False
    with assms(1) e hc obtain all where
      r: "for_each (combo_body_a g m cfg e (neighbors g e)) (combinations (take 10 hc) 3) [] = Inr all"
      and rs: "rs = take 3 (sort_reverse score all)"
      by (auto simp add: detect_scenario_a_def get_neighbors_def Let_def split: sum.splits)
    have "?I all"
    proof (rule for_each_invariant [OF r, where I = ?I])
      show "?I []" by simp
    next
      fix combo s s'
      assume c: "combo \<in> set (combinations (take 10 hc) 3)" and i: "?I s"
        and b: "combo_body_a g m cfg e (neighbors g e) combo s = Inr s'"
      have "distinct (map fst (take 10 hc))" using hcd by (simp add: take_map [symmetric] distinct_take)
      with combinations_props [OF c, of fst] have
        len: "length combo = 3" and sub: "set combo \<subseteq> set (take 10 hc)" and d: "distinct (map fst combo)"
        by auto
      have "set combo \<subseteq> set hc" using sub set_take_subset [of 10 hc] by blast
      with hcs have "fst ` set combo \<subseteq> set (neighbors g e)" by auto
      with simple_graph_no_loop [OF assms(2) e] have "e \<notin> fst ` set combo" by auto
      with combo_body_a_roles [OF b assms(2) len d] i show "?I s'" by simp
    qed
    then have "list_all (\<lambda>r. employee r = e \<and> length (handlers r) = 3 \<and> distinct (roles_a r))
                 (sort_reverse score all)"
      by (simp add: list_all_iff set_sort_reverse)
    then show ?thesis unfolding rs list_all_iff using in_set_takeD by fast
  qed
qed

lemma kept_middleman_member:
  assumes "x \<in> set (kept_middleman r)"
  shows "r = Inr (Some x)"
  using assms by (auto simp add: kept_middleman_def split: sum.splits option.splits if_splits)

lemma middlemen_members:
  assumes "for_each (middlemen_body g m cfg e hs) hs [] = Inr ms" and "x \<in> set ms"
  shows "x \<noteq> e \<and> x \<notin> set hs"
proof -
  from middlemen_loop [OF assms(1)] assms(2) obtain h where
    "x \<in> set (kept_middleman (handler_middleman g m cfg e hs h))"
    by auto
  then have "handler_middleman g m cfg e hs h = Inr (Some x)" by (rule kept_middleman_member)
  from handler_middleman_result [OF this] show ?thesis by simp
qed

lemma combo_body_b_roles:
  assumes "combo_body_b set_iter g m cfg e combo st = Inr st'"
    and "\<And>S. finite S \<Longrightarrow> set (set_iter S) = S"
    and "length combo = 3" and "distinct (map fst combo)" and "e \<notin> fst ` set combo"
    and "\<forall>r. fst st = Some r \<longrightarrow> employee r = e \<and> length (handlers r) = 3 \<and> distinct (roles_b r)"
  shows "\<forall>r. fst st' = Some r \<longrightarrow> employee r = e \<and> length (handlers r) = 3 \<and> distinct (roles_b r)"
proof -
  let ?hs = "map fst combo"
  from combo_body_b_cases [OF assms(1)] consider (same) "st' = st"
    | (new) ms l common where
        "for_each (middlemen_body g m cfg e ?hs) ?hs [] = Inr ms"
        "length ms = 3" "distinct ms"
        "find_fearless_leader g m cfg (set_iter common) (set_iter (set (?hs @ [e] @ ms))) = Inr (Some l)"
        "fst st' = Some \<lparr>employee = e, handlers = ?hs, boris = ms ! 0, fearless_leader = l,
                          score = score_scenario_b_configuration g m cfg e ?hs ms l,
                          scenario = ''B'', morris = ms ! 1, horace = ms ! 2\<rparr>"
    by auto
  then show ?thesis
  proof cases
    case same
    with assms(6) show ?thesis by simp
  next
    case new
    from new(2) obtain x y z where ms: "ms = [x, y, z]"
      by (auto simp add: length_Suc_conv numeral_3_eq_3)
    have mem: "\<forall>k\<in>set ms. k \<noteq> e \<and> k \<notin> set ?hs"
      using middlemen_members [OF new(1)] by blast
    have "set (set_iter (set (?hs @ [e] @ ms))) = set (?hs @ [e] @ ms)"
      by (rule assms(2)) simp
    with find_fearless_leader_in_pool [OF new(4)]
    have l: "l \<notin> set ?hs" "l \<noteq> e" "l \<notin> set ms" by auto
    have "distinct (e # ?hs @ [x, y, z, l])"
      using l mem new(3) assms(4,5) unfolding ms by auto
    then have "distinct (roles_b \<lparr>employee = e, handlers = ?hs, boris = ms ! 0, fearless_leader = l,
                          score = score_scenario_b_configuration g m cfg e ?hs ms l,
                          scenario = ''B'', morris = ms ! 1, horace = ms ! 2\<rparr>)"
      by (simp add: roles_b_def ms)
    with new(5) assms(3) show ?thesis by auto
  qed
qed

lemma detect_scenario_b_roles:
  assumes "detect_scenario_b set_iter g m cfg e = Inr (Some r)" and "simple_graph g"
    and "\<And>S. finite S \<Longrightarrow> set (set_iter S) = S"
  shows "employee r = e \<and> length (handlers r) = 3 \<and> distinct (roles_b r)"
proof -
  let ?I = "\<lambda>st :: scenario_b_result option \<times> rat. \<forall>r. fst st = Some r \<longrightarrow> employee r = e \<and> length (handlers r) = 3 \<and> distinct (roles_b r)"
  from assms(1) have e: "e \<in> set (nodes g)"
    by (auto simp add: detect_scenario_b_def get_neighbors_def split: if_splits)
  from assms(2) have wf: "wf_graph g" by (simp add: simple_graph_def)
  from wf_graph_neighbors [OF wf e] have ns: "distinct (neighbors g e)" "set (neighbors g e) \<subseteq> set (nodes g)"
    by auto
  from assms(1) e obtain hc where hc: "find_handler_candidates g m cfg (neighbors g e) = Inr hc"
    by (auto simp add: detect_scenario_b_def get_neighbors_def split: sum.splits)
  from find_handler_candidates_ids [OF hc ns(2) ns(1)]
  have hcd: "distinct (map fst hc)" and hcs: "fst ` set hc \<subseteq> set (neighbors g e)" by auto
  from assms(1) e hc have ge: "\<not> length hc < 3"
    by (auto simp add: detect_scenario_b_def get_neighbors_def split: if_splits)
  with assms(1) e hc obtain st where
    r: "for_each (combo_body_b set_iter g m cfg e) (combinations (take 10 hc) 3) (None, 0) = Inr st"
    and st: "fst st = Some r"
    by (auto simp add: detect_scenario_b_def get_neighbors_def split: sum.splits)
  have "?I st"
  proof (rule for_each_invariant [OF r, where I = ?I])
    show "?I (None, 0)" by simp
  next
    fix combo s s'
    assume c: "combo \<in> set (combinations (take 10 hc) 3)" and i: "?I s"
      and b: "combo_body_b set_iter g m cfg e combo s = Inr s'"
    have "distinct (map fst (take 10 hc))" using hcd by (simp add: take_map [symmetric] distinct_take)
    with combinations_props [OF c, of fst] have
      len: "length combo = 3" and sub: "set combo \<subseteq> set (take 10 hc)" and d: "distinct (map fst combo)"
      by auto
    have "set combo \<subseteq> set hc" using sub set_take_subset [of 10 hc] by blast
    with hcs have "fst ` set combo \<subseteq> set (neighbors g e)" by auto
    with simple_graph_no_loop [OF assms(2) e] have ne: "e \<notin> fst ` set combo" by auto
    from combo_body_b_roles [OF b assms(3) len d ne i] show "?I s'" .
  qed
  with st show ?thesis by simp
qed

text \<open>
  Claim C10. On a simple graph (no node is its own neighbour), every configuration returned
  by the Scenario A search has six pairwise distinct role nodes (employee, three handlers,
  middleman, leader) and the configuration returned by the Scenario B search has eight
  (employee, three handlers, three middlemen, leader). \<open>set_iter\<close> lists the elements of a
  set, in any order.
\<close>

theorem scenario_roles_distinct:
  assumes "simple_graph g"
    and "\<And>S. finite S \<Longrightarrow> set (set_iter S) = S"
  shows "(detect_scenario_a g m cfg employee_id = Inr results \<and> ra \<in> set results \<longrightarrow>
            employee ra = employee_id \<and> length (handlers ra) = 3
            \<and> distinct (employee ra # handlers ra @ [boris ra, fearless_leader ra]))
         \<and> (detect_scenario_b set_iter g m cfg employee_id = Inr (Some rb) \<longrightarrow>
            employee rb = employee_id \<and> length (handlers rb) = 3
            \<and> distinct (employee rb # handlers rb @ [boris rb, morris rb, horace rb, fearless_leader rb]))"
proof -
  have a: "detect_scenario_a g m cfg employee_id = Inr results \<and> ra \<in> set results \<longrightarrow>
            employee ra = employee_id \<and> length (handlers ra) = 3
            \<and> distinct (employee ra # handlers ra @ [boris ra, fearless_leader ra])"
  proof
    assume h: "detect_scenario_a g m cfg employee_id = Inr results \<and> ra \<in> set results"
    then have "list_all (\<lambda>r. employee r = employee_id \<and> length (handlers r) = 3 \<and> distinct (roles_a r)) results"
      using detect_scenario_a_roles [OF _ assms(1)] by blast
    with h show "employee ra = employee_id \<and> length (handlers ra) = 3
            \<and> distinct (employee ra # handlers ra @ [boris ra, fearless_leader ra])"
      by (auto simp add: list_all_iff roles_a_def)
  qed
  have b: "detect_scenario_b set_iter g m cfg employee_id = Inr (Some rb) \<longrightarrow>
            employee rb = employee_id \<and> length (handlers rb) = 3
            \<and> distinct (employee rb # handlers rb @ [boris rb, morris rb, horace rb, fearless_leader rb])"
  proof
    assume "detect_scenario_b set_iter g m cfg employee_id = Inr (Some rb)"
    from detect_scenario_b_roles [OF this assms(1) assms(2)]
    show "employee rb = employee_id \<and> length (handlers rb) = 3
            \<and> distinct (employee rb # handlers rb @ [boris rb, morris rb, horace rb, fearless_leader rb])"
      by (auto simp add: roles_b_def)
  qed
  from a b show ?thesis by blast
qed

theorem scenario_roles_distinct_witness:
  "simple_graph (ring_graph 6)
   \<and> detect_scenario_a (ring_graph 6) (ring_metrics 6) ring_config 1
       = Inr [\<lparr>employee = 1, handlers = [2, 3, 4], boris = 5, fearless_leader = 6,
                score = 15, scenario = ''A''\<rparr>]
   \<and> distinct [1, 2, 3, 4, 5, 6 :: node]
   \<and> simple_graph (cell_graph 6 [(1, ''Metropolis'')])
   \<and> detect_scenario_b sorted_list_of_set (cell_graph 6 [(1, ''Metropolis'')]) cell_metrics cell_config 1
       = Inr (Some \<lparr>employee = 1, handlers = [2, 3, 4], boris = 5, fearless_leader = 8,
                     score = 5, scenario = ''B'', morris = 6, horace = 7\<rparr>)
   \<and> distinct [1, 2, 3, 4, 5, 6, 7, 8 :: node]"
proof -
  let ?ra = "\<lparr>employee = 1, handlers = [2, 3, 4], boris = 5, fearless_leader = 6,
              score = 15, scenario = ''A''\<rparr>"
  let ?rb = "\<lparr>employee = 1, handlers = [2, 3, 4], boris = 5, fearless_leader = 8,
              score = 5, scenario = ''B'', morris = 6, horace = 7\<rparr>"
  have sa: "simple_graph (ring_graph 6)" by code_simp
  have a: "detect_scenario_a (ring_graph 6) (ring_metrics 6) ring_config 1 = Inr [?ra]"
    by code_simp
  have sb: "simple_graph (cell_graph 6 [(1, ''Metropolis'')])" by code_simp
  have b: "detect_scenario_b sorted_list_of_set (cell_graph 6 [(1, ''Metropolis'')]) cell_metrics cell_config 1
       = Inr (Some ?rb)"
    by code_simp
  from scenario_roles_distinct [OF sa set_iter_sorted, of "ring_metrics 6" ring_config 1 "[?ra]" ?ra] a
  have da: "distinct [1, 2, 3, 4, 5, 6 :: node]" by simp
  from scenario_roles_distinct [OF sb set_iter_sorted, of cell_metrics cell_config 1 _ _ ?rb] b
  have db: "distinct [1, 2, 3, 4, 5, 6, 7, 8 :: node]" by simp
  from sa a da sb b db show ?thesis by blast
qed

section \<open>The searches raise no error on a graph of networkx\<close>

lemma find_fearless_leader_total:
  assumes "nodes g \<noteq> []" and "betweenness_centrality m \<noteq> []"
    and "\<forall>n\<in>set pool. n \<notin> set excl \<longrightarrow> n \<in> set (nodes g)"
  shows "\<exists>r. find_fearless_leader g m cfg pool excl = Inr r"
proof -
  from thresholds_total [OF assms(1,2)] obtain dt bt where
    t: "degree_threshold_top2 g = Inr dt" "betweenness_threshold_top2 g m = Inr bt" by blast
  from leader_loop [OF assms(3), of m cfg dt bt None 0] obtain st where
    "for_each (leader_body g m cfg excl dt bt) pool (None, 0) = Inr st" by blast
  with t show ?thesis by (simp add: find_fearless_leader_def)
qed

lemma boris_body_total:
  assumes "wf_graph g" and "betweenness_centrality m \<noteq> []"
    and "fst cand \<in> set (nodes g)"
  shows "\<exists>acc'. boris_body g m cfg e hs cand acc = Inr acc'"
proof -
  from assms(3) have ne: "nodes g \<noteq> []" by auto
  from wf_graph_neighbors [OF assms(1,3)] have
    "\<forall>n\<in>set (neighbors g (fst cand)). n \<notin> set (hs @ [e]) \<longrightarrow> n \<in> set (nodes g)" by auto
  from find_fearless_leader_total [OF ne assms(2) this, of cfg] obtain r where
    "find_fearless_leader g m cfg (neighbors g (fst cand)) (hs @ [e]) = Inr r" by blast
  with assms(3) show ?thesis
    by (simp add: boris_body_def get_neighbors_def Let_def split: option.splits)
qed

lemma combo_body_a_total:
  assumes "wf_graph g" and "betweenness_centrality m \<noteq> []" and "set ns \<subseteq> set (nodes g)"
  shows "\<exists>acc'. combo_body_a g m cfg e ns combo acc = Inr acc'"
proof -
  let ?hs = "map fst combo"
  let ?pb = "sort_reverse snd (map (\<lambda>nb. (nb, betweenness m nb))
              (filter (\<lambda>nb. nb \<notin> set ?hs \<and> betweenness m nb > 1 / 1000) ns))"
  have "\<exists>s'. for_each (boris_body g m cfg e ?hs) (take 5 ?pb) acc = Inr s' \<and> True"
  proof (rule for_each_total [where I = "\<lambda>_. True"])
    show True ..
  next
    fix cand s
    assume "cand \<in> set (take 5 ?pb)"
    then have "cand \<in> set ?pb" by (rule in_set_takeD)
    then have "fst cand \<in> set ns" by (force simp add: set_sort_reverse)
    with assms(3) have "fst cand \<in> set (nodes g)" by auto
    from boris_body_total [OF assms(1,2) this]
    show "\<exists>s'. boris_body g m cfg e ?hs cand s = Inr s' \<and> True" by simp
  qed
  then show ?thesis by (auto simp add: combo_body_a_def Let_def)
qed

lemma detect_scenario_a_total:
  assumes "wf_graph g" and "betweenness_centrality m \<noteq> []" and "e \<in> set (nodes g)"
  shows "\<exists>rs. detect_scenario_a g m cfg e = Inr rs"
proof -
  from wf_graph_neighbors [OF assms(1,3)] have ns: "set (neighbors g e) \<subseteq> set (nodes g)" by simp
  from find_handler_candidates_eq [OF ns, of m cfg] obtain hc where
    hc: "find_handler_candidates g m cfg (neighbors g e) = Inr hc" by blast
  have "\<exists>s'. for_each (combo_body_a g m cfg e (neighbors g e)) (combinations (take 10 hc) 3) [] = Inr s' \<and> True"
  proof (rule for_each_total [where I = "\<lambda>_. True"])
    show True ..
  next
    fix combo s
    from combo_body_a_total [OF assms(1,2) ns]
    show "\<exists>s'. combo_body_a g m cfg e (neighbors g e) combo s = Inr s' \<and> True" by simp
  qed
  with hc assms(3) show ?thesis
    by (auto simp add: detect_scenario_a_def get_neighbors_def Let_def)
qed

lemma find_best_middleman_total:
  assumes "set pool \<subseteq> set (nodes g)"
  shows "\<exists>r. find_best_middleman_for_handler g m cfg pool = Inr r"
proof -
  have "\<exists>s'. for_each (middleman_body g m cfg) pool (None, 0) = Inr s' \<and> True"
  proof (rule for_each_total [where I = "\<lambda>_. True"])
    show True ..
  next
    fix x s
    assume "x \<in> set pool"
    with assms have "x \<in> set (nodes g)" by auto
    then show "\<exists>s'. middleman_body g m cfg x s = Inr s' \<and> True"
      by (simp add: middleman_body_def Let_def)
  qed
  then show ?thesis by (auto simp add: find_best_middleman_for_handler_def)
qed

lemma handler_middleman_total:
  assumes "wf_graph g" and "h \<in> set (nodes g)"
  shows "\<exists>r. handler_middleman g m cfg e hs h = Inr r"
proof -
  from wf_graph_neighbors [OF assms] have
    "set (filter (\<lambda>n. n \<noteq> e \<and> n \<notin> set hs) (neighbors g h)) \<subseteq> set (nodes g)" by auto
  from find_best_middleman_total [OF this, of m cfg] assms(2) show ?thesis
    by (simp add: handler_middleman_def get_neighbors_def)
qed

lemma middlemen_total:
  assumes "wf_graph g" and "set xs \<subseteq> set (nodes g)"
  shows "\<exists>ms. for_each (middlemen_body g m cfg e hs) xs [] = Inr ms \<and> set ms \<subseteq> set (nodes g)"
proof -
  have "\<exists>s'. for_each (middlemen_body g m cfg e hs) xs [] = Inr s' \<and> True"
  proof (rule for_each_total [where I = "\<lambda>_. True"])
    show True ..
  next
    fix x s
    assume "x \<in> set xs"
    with assms(2) have "x \<in> set (nodes g)" by auto
    from handler_middleman_total [OF assms(1) this, of m cfg e hs]
    show "\<exists>s'. middlemen_body g m cfg e hs x s = Inr s' \<and> True"
      by (auto simp add: middlemen_body_def split: option.splits)
  qed
  then obtain ms where ms: "for_each (middlemen_body g m cfg e hs) xs [] = Inr ms" by blast
  have "set ms \<subseteq> set (nodes g)"
  proof
    fix x assume "x \<in> set ms"
    with middlemen_loop [OF ms] obtain h where
      "x \<in> set (kept_middleman (handler_middleman g m cfg e hs h))" by auto
    then have "handler_middleman g m cfg e hs h = Inr (Some x)" by (rule kept_middleman_member)
    from handler_middleman_result [OF this] have "x \<in> set (neighbors g h)" "h \<in> set (nodes g)" by auto
    with wf_graph_neighbors [OF assms(1)] show "x \<in> set (nodes g)" by auto
  qed
  with ms show ?thesis by blast
qed

lemma common_total:
  assumes "set xs \<subseteq> set (nodes g)"
  shows "\<exists>c. for_each (common_body g) xs c0 = Inr c \<and> c \<subseteq> c0"
proof (rule for_each_total [where I = "\<lambda>c. c \<subseteq> c0"])
  show "c0 \<subseteq> c0" by simp
next
  fix x s
  assume "x \<in> set xs" "s \<subseteq> c0"
  with assms show "\<exists>s'. common_body g x s = Inr s' \<and> s' \<subseteq> c0"
    by (auto simp add: common_body_def get_neighbors_def)
qed

lemma combo_body_b_total:
  assumes "wf_graph g" and "betweenness_centrality m \<noteq> []"
    and "\<And>S. finite S \<Longrightarrow> set (set_iter S) = S"
    and "fst ` set combo \<subseteq> set (nodes g)" and "nodes g \<noteq> []"
  shows "\<exists>st'. combo_body_b set_iter g m cfg e combo st = Inr st'"
proof -
  let ?hs = "map fst combo"
  from assms(4) have "set ?hs \<subseteq> set (nodes g)" by simp
  from middlemen_total [OF assms(1) this, of m cfg e ?hs] obtain ms where
    ms: "for_each (middlemen_body g m cfg e ?hs) ?hs [] = Inr ms" and sub: "set ms \<subseteq> set (nodes g)"
    by blast
  show ?thesis
  proof (cases "length ms \<noteq> 3 \<or> card (set ms) \<noteq> 3")
    case True
    with ms show ?thesis by (auto simp add: combo_body_b_def Let_def)
  next
    case False
    then have len: "length ms = 3" by simp
    then obtain x y z where xyz: "ms = [x, y, z]"
      by (auto simp add: length_Suc_conv numeral_3_eq_3)
    with sub have x: "x \<in> set (nodes g)" and t: "set (tl ms) \<subseteq> set (nodes g)" by auto
    have ns0: "get_neighbors g (ms ! 0) = Inr (neighbors g x)"
      using x xyz by (simp add: get_neighbors_def)
    from common_total [OF t, of "set (neighbors g x)"] obtain c where
      c: "for_each (common_body g) (tl ms) (set (neighbors g x)) = Inr c"
      and csub: "c \<subseteq> set (neighbors g x)"
      by blast
    let ?ex = "set (?hs @ [e] @ ms)"
    have fin: "finite (c - ?ex)" using csub by (meson finite_Diff finite_set finite_subset)
    have "set (set_iter (c - ?ex)) = c - ?ex" by (rule assms(3) [OF fin])
    with csub wf_graph_neighbors [OF assms(1) x]
    have "\<forall>n\<in>set (set_iter (c - ?ex)). n \<notin> set (set_iter ?ex) \<longrightarrow> n \<in> set (nodes g)" by auto
    from find_fearless_leader_total [OF assms(5,2) this, of cfg] obtain lc where
      lc: "find_fearless_leader g m cfg (set_iter (c - ?ex)) (set_iter ?ex) = Inr lc" by blast
    show ?thesis
      using ms False ns0 c lc
      by (simp add: combo_body_b_def Let_def split: option.splits)
  qed
qed

lemma detect_scenario_b_total:
  assumes "wf_graph g" and "betweenness_centrality m \<noteq> []" and "e \<in> set (nodes g)"
    and "\<And>S. finite S \<Longrightarrow> set (set_iter S) = S"
  shows "\<exists>r. detect_scenario_b set_iter g m cfg e = Inr r"
proof -
  from assms(3) have ne: "nodes g \<noteq> []" by auto
  from wf_graph_neighbors [OF assms(1,3)] have ns: "set (neighbors g e) \<subseteq> set (nodes g)"
    and d: "distinct (neighbors g e)" by simp_all
  from find_handler_candidates_eq [OF ns, of m cfg] obtain hc where
    hc: "find_handler_candidates g m cfg (neighbors g e) = Inr hc" by blast
  from find_handler_candidates_ids [OF hc ns d] have hcs: "fst ` set hc \<subseteq> set (neighbors g e)" by simp
  have "\<exists>s'. for_each (combo_body_b set_iter g m cfg e) (combinations (take 10 hc) 3) (None, 0) = Inr s' \<and> True"
  proof (rule for_each_total [where I = "\<lambda>_. True"])
    show True ..
  next
    fix combo s
    assume c: "combo \<in> set (combinations (take 10 hc) 3)"
    from combinations_props [OF c, of fst] have "set combo \<subseteq> set (take 10 hc)" by simp
    then have "set combo \<subseteq> set hc" using set_take_subset [of 10 hc] by blast
    with hcs ns have "fst ` set combo \<subseteq> set (nodes g)" by auto
    from combo_body_b_total [OF assms(1,2) assms(4) this ne]
    show "\<exists>s'. combo_body_b set_iter g m cfg e combo s = Inr s' \<and> True" by simp
  qed
  with hc assms(3) show ?thesis
    by (auto simp add: detect_scenario_b_def get_neighbors_def)
qed

section \<open>Top-level orchestration\<close>

lemma employee_body_effect:
  assumes "employee_body set_iter g m cfg cand res = Inr res'"
  shows "employee_candidates res' = employee_candidates res
         \<and> map_of (scenario_a res') =
             (\<lambda>k. if k = fst cand \<and> entry_a g m cfg k \<noteq> None then entry_a g m cfg k
                  else map_of (scenario_a res) k)
         \<and> map_of (scenario_b res') =
             (\<lambda>k. if k = fst cand \<and> entry_b set_iter g m cfg k \<noteq> None then entry_b set_iter g m cfg k
                  else map_of (scenario_b res) k)"
proof -
  from assms obtain rs rb where a: "detect_scenario_a g m cfg (fst cand) = Inr rs"
    and b: "detect_scenario_b set_iter g m cfg (fst cand) = Inr rb"
    by (auto simp add: employee_body_def Let_def split: if_splits sum.splits)
  let ?r1 = "if rs \<noteq> [] then res\<lparr>scenario_a := dict_set (scenario_a res) (fst cand) rs\<rparr> else res"
  have r': "res' = (case rb of None \<Rightarrow> ?r1
                   | Some r \<Rightarrow> ?r1\<lparr>scenario_b := dict_set (scenario_b ?r1) (fst cand) r\<rparr>)"
    using assms a b by (auto simp add: employee_body_def Let_def split: if_splits option.splits)
  have ea: "entry_a g m cfg (fst cand) = (if rs = [] then None else Some rs)"
    by (simp add: entry_a_def a)
  have eb: "entry_b set_iter g m cfg (fst cand) = rb"
    by (simp add: entry_b_def b)
  have c1: "employee_candidates res' = employee_candidates res"
    unfolding r' by (simp split: option.splits)
  have c2: "map_of (scenario_a res') =
             (\<lambda>k. if k = fst cand \<and> entry_a g m cfg k \<noteq> None then entry_a g m cfg k
                  else map_of (scenario_a res) k)"
    unfolding r' using ea by (auto simp add: map_of_dict_set fun_eq_iff split: option.splits)
  have c3: "map_of (scenario_b res') =
             (\<lambda>k. if k = fst cand \<and> entry_b set_iter g m cfg k \<noteq> None then entry_b set_iter g m cfg k
                  else map_of (scenario_b res) k)"
    unfolding r' using eb by (auto simp add: map_of_dict_set fun_eq_iff split: option.splits)
  from c1 c2 c3 show ?thesis by blast
qed

lemma employees_loop:
  assumes "for_each (employee_body set_iter g m cfg) xs res = Inr res'"
  shows "employee_candidates res' = employee_candidates res
         \<and> map_of (scenario_a res') =
             (\<lambda>k. if k \<in> fst ` set xs \<and> entry_a g m cfg k \<noteq> None then entry_a g m cfg k
                  else map_of (scenario_a res) k)
         \<and> map_of (scenario_b res') =
             (\<lambda>k. if k \<in> fst ` set xs \<and> entry_b set_iter g m cfg k \<noteq> None then entry_b set_iter g m cfg k
                  else map_of (scenario_b res) k)"
  using assms
proof (induction xs arbitrary: res)
  case Nil
  then show ?case by simp
next
  case (Cons x xs)
  from Cons.prems obtain res1 where b: "employee_body set_iter g m cfg x res = Inr res1"
    and r: "for_each (employee_body set_iter g m cfg) xs res1 = Inr res'"
    by (auto split: sum.splits)
  from employee_body_effect [OF b] Cons.IH [OF r] show ?case
    by (auto simp add: fun_eq_iff)
qed

lemma few_handlers_no_pattern:
  assumes "get_neighbors g e = Inr ns" and "find_handler_candidates g m cfg ns = Inr hc"
    and "length hc < 3"
  shows "detect_scenario_a g m cfg e = Inr [] \<and> detect_scenario_b set_iter g m cfg e = Inr None"
  using assms by (simp add: detect_scenario_a_def detect_scenario_b_def)

lemma employee_body_total:
  assumes "wf_graph g" and "betweenness_centrality m \<noteq> []"
    and "\<And>S. finite S \<Longrightarrow> set (set_iter S) = S"
    and "fst cand \<in> set (nodes g)" and "node_name g (fst cand) \<noteq> None"
  shows "\<exists>res'. employee_body set_iter g m cfg cand res = Inr res'"
proof -
  from detect_scenario_a_total [OF assms(1,2,4), of cfg] obtain rs where
    a: "detect_scenario_a g m cfg (fst cand) = Inr rs" by blast
  from detect_scenario_b_total [OF assms(1,2,4) assms(3), of cfg] obtain rb where
    b: "detect_scenario_b set_iter g m cfg (fst cand) = Inr rb" by blast
  from a b assms(5) show ?thesis
    by (auto simp add: employee_body_def Let_def split: option.splits)
qed

text \<open>
  Claim C8. On a graph of networkx whose nodes all carry a name, with a non-empty
  betweenness table, the orchestration returns a bundle (no error): it holds the full
  employee-candidate list; its Scenario A map has an entry for an employee exactly when the
  employee is among the top 5 candidates and its Scenario A search returned a non-empty
  list, which is the entry; its Scenario B map has an entry exactly when the employee is
  among the top 5 and its Scenario B search returned a configuration, which is the entry;
  and an employee with fewer than 3 handler candidates has no entry in either map. Each
  entry depends on the search of its own employee only.
\<close>

theorem detect_all_patterns_bundle:
  assumes "wf_graph g" and "betweenness_centrality m \<noteq> []"
    and "list_all (\<lambda>n. node_name g n \<noteq> None) (nodes g)"
    and "\<And>S. finite S \<Longrightarrow> set (set_iter S) = S"
  shows "\<exists>res. detect_all_patterns set_iter g m cfg = Inr res
           \<and> employee_candidates res = identify_employee_candidates g m cfg
           \<and> (\<forall>e rs. map_of (scenario_a res) e = Some rs \<longleftrightarrow>
                 e \<in> fst ` set (take 5 (identify_employee_candidates g m cfg))
                 \<and> detect_scenario_a g m cfg e = Inr rs \<and> rs \<noteq> [])
           \<and> (\<forall>e r. map_of (scenario_b res) e = Some r \<longleftrightarrow>
                 e \<in> fst ` set (take 5 (identify_employee_candidates g m cfg))
                 \<and> detect_scenario_b set_iter g m cfg e = Inr (Some r))
           \<and> (\<forall>e ns hc. get_neighbors g e = Inr ns \<and> find_handler_candidates g m cfg ns = Inr hc
                 \<and> length hc < 3 \<longrightarrow>
                 map_of (scenario_a res) e = None \<and> map_of (scenario_b res) e = None)"
proof -
  let ?ec = "identify_employee_candidates g m cfg"
  let ?init = "\<lparr>scenario_a = [], scenario_b = [], employee_candidates = ?ec\<rparr>"
  have ecs: "fst ` set ?ec \<subseteq> set (nodes g)"
    by (auto simp add: identify_employee_candidates_def Let_def set_sort_reverse)
  have "\<exists>s'. for_each (employee_body set_iter g m cfg) (take 5 ?ec) ?init = Inr s' \<and> True"
  proof (rule for_each_total [where I = "\<lambda>_. True"])
    show True ..
  next
    fix cand s
    assume "cand \<in> set (take 5 ?ec)"
    then have "cand \<in> set ?ec" by (rule in_set_takeD)
    with ecs have n: "fst cand \<in> set (nodes g)" by auto
    with assms(3) have "node_name g (fst cand) \<noteq> None" by (simp add: list_all_iff)
    from employee_body_total [OF assms(1,2) assms(4) n this]
    show "\<exists>s'. employee_body set_iter g m cfg cand s = Inr s' \<and> True" by simp
  qed
  then obtain res where loop: "for_each (employee_body set_iter g m cfg) (take 5 ?ec) ?init = Inr res"
    by blast
  then have r: "detect_all_patterns set_iter g m cfg = Inr res"
    by (simp add: detect_all_patterns_def Let_def)
  from employees_loop [OF loop] have
    c: "employee_candidates res = ?ec"
    and ma: "\<And>k. map_of (scenario_a res) k =
               (if k \<in> fst ` set (take 5 ?ec) \<and> entry_a g m cfg k \<noteq> None then entry_a g m cfg k else None)"
    and mb: "\<And>k. map_of (scenario_b res) k =
               (if k \<in> fst ` set (take 5 ?ec) \<and> entry_b set_iter g m cfg k \<noteq> None
                then entry_b set_iter g m cfg k else None)"
    by (simp_all add: fun_eq_iff)
  have pa: "\<forall>e rs. map_of (scenario_a res) e = Some rs \<longleftrightarrow>
                 e \<in> fst ` set (take 5 ?ec) \<and> detect_scenario_a g m cfg e = Inr rs \<and> rs \<noteq> []"
    unfolding ma by (auto simp add: entry_a_def split: sum.splits if_splits)
  have pb: "\<forall>e r. map_of (scenario_b res) e = Some r \<longleftrightarrow>
                 e \<in> fst ` set (take 5 ?ec) \<and> detect_scenario_b set_iter g m cfg e = Inr (Some r)"
    unfolding mb by (auto simp add: entry_b_def split: sum.splits if_splits)
  have pc: "\<forall>e ns hc. get_neighbors g e = Inr ns \<and> find_handler_candidates g m cfg ns = Inr hc
                 \<and> length hc < 3 \<longrightarrow>
                 map_of (scenario_a res) e = None \<and> map_of (scenario_b res) e = None"
  proof (intro allI impI)
    fix e ns hc
    assume "get_neighbors g e = Inr ns \<and> find_handler_candidates g m cfg ns = Inr hc \<and> length hc < 3"
    then have "detect_scenario_a g m cfg e = Inr [] \<and> detect_scenario_b set_iter g m cfg e = Inr None"
      using few_handlers_no_pattern [of g e ns m cfg hc set_iter] by blast
    then have "entry_a g m cfg e = None" "entry_b set_iter g m cfg e = None"
      by (simp_all add: entry_a_def entry_b_def)
    then show "map_of (scenario_a res) e = None \<and> map_of (scenario_b res) e = None"
      by (simp add: ma mb)
  qed
  from r c pa pb pc show ?thesis by blast
qed

theorem detect_all_patterns_bundle_witness:
  "wf_graph (cell_graph 6 [(1, ''Metropolis'')])
   \<and> betweenness_centrality cell_metrics \<noteq> []
   \<and> list_all (\<lambda>n. node_name (cell_graph 6 [(1, ''Metropolis'')]) n \<noteq> None)
        (nodes (cell_graph 6 [(1, ''Metropolis'')]))
   \<and> (\<exists>res. detect_all_patterns sorted_list_of_set (cell_graph 6 [(1, ''Metropolis'')]) cell_metrics cell_config
              = Inr res
          \<and> employee_candidates res
              = identify_employee_candidates (cell_graph 6 [(1, ''Metropolis'')]) cell_metrics cell_config
          \<and> (\<forall>e rs. map_of (scenario_a res) e = Some rs \<longleftrightarrow>
                 e \<in> fst ` set (take 5 (identify_employee_candidates (cell_graph 6 [(1, ''Metropolis'')]) cell_metrics cell_config))
                 \<and> detect_scenario_a (cell_graph 6 [(1, ''Metropolis'')]) cell_metrics cell_config e = Inr rs \<and> rs \<noteq> [])
          \<and> (\<forall>e r. map_of (scenario_b res) e = Some r \<longleftrightarrow>
                 e \<in> fst ` set (take 5 (identify_employee_candidates (cell_graph 6 [(1, ''Metropolis'')]) cell_metrics cell_config))
                 \<and> detect_scenario_b sorted_list_of_set (cell_graph 6 [(1, ''Metropolis'')]) cell_metrics cell_config e = Inr (Some r))
          \<and> (\<forall>e ns hc. get_neighbors (cell_graph 6 [(1, ''Metropolis'')]) e = Inr ns
                 \<and> find_handler_candidates (cell_graph 6 [(1, ''Metropolis'')]) cell_metrics cell_config ns = Inr hc
                 \<and> length hc < 3 \<longrightarrow>
                 map_of (scenario_a res) e = None \<and> map_of (scenario_b res) e = None))
   \<and> take 5 (identify_employee_candidates (cell_graph 6 [(1, ''Metropolis'')]) cell_metrics cell_config)
       = [(1, 7 / 10), (8, 4 / 10), (9, 4 / 10), (10, 4 / 10), (11, 4 / 10)]
   \<and> get_neighbors (cell_graph 6 [(1, ''Metropolis'')]) 8 = Inr [5, 6, 7]
   \<and> find_handler_candidates (cell_graph 6 [(1, ''Metropolis'')]) cell_metrics cell_config [5, 6, 7] = Inr []
   \<and> detect_scenario_b sorted_list_of_set (cell_graph 6 [(1, ''Metropolis'')]) cell_metrics cell_config 1
       = Inr (Some \<lparr>employee = 1, handlers = [2, 3, 4], boris = 5, fearless_leader = 8,
                     score = 5, scenario = ''B'', morris = 6, horace = 7\<rparr>)"
proof -
  let ?g = "cell_graph 6 [(1, ''Metropolis'')]"
  have wf: "wf_graph ?g" by code_simp
  have bc: "betweenness_centrality cell_metrics \<noteq> []" by code_simp
  have nm: "list_all (\<lambda>n. node_name ?g n \<noteq> None) (nodes ?g)" by code_simp
  have top: "take 5 (identify_employee_candidates ?g cell_metrics cell_config)
       = [(1, 7 / 10), (8, 4 / 10), (9, 4 / 10), (10, 4 / 10), (11, 4 / 10)]"
    by code_simp
  have nb: "get_neighbors ?g 8 = Inr [5, 6, 7]" by code_simp
  have hc: "find_handler_candidates ?g cell_metrics cell_config [5, 6, 7] = Inr []" by code_simp
  have b1: "detect_scenario_b sorted_list_of_set ?g cell_metrics cell_config 1
       = Inr (Some \<lparr>employee = 1, handlers = [2, 3, 4], boris = 5, fearless_leader = 8,
                     score = 5, scenario = ''B'', morris = 6, horace = 7\<rparr>)"
    by code_simp
  note t = detect_all_patterns_bundle [OF wf bc nm set_iter_sorted, of cell_config]
  show ?thesis
    by (rule conjI [OF wf conjI [OF bc conjI [OF nm conjI [OF t conjI [OF top conjI [OF nb conjI [OF hc b1]]]]]]])
qed

section \<open>The top-N-by-metric helper\<close>

text \<open>
  Claim C9, as stated, fails: for a metric name that is not a key of the metrics dict the
  helper returns the empty list, the very value it returns for a known metric with no
  entries (as \<^verbatim>\<open>eigenvector_centrality\<close> is when its computation did not converge).
\<close>

theorem get_top_nodes_by_metric_unknown_counterexample:
  "map_of [(''eigenvector_centrality'', [] :: (node \<times> rat) list)] ''no_such_metric'' = None
   \<and> get_top_nodes_by_metric [(''eigenvector_centrality'', [])] ''no_such_metric'' 10 = Inr []
   \<and> get_top_nodes_by_metric [(''eigenvector_centrality'', [])] ''eigenvector_centrality'' 10 = Inr []"
  by (simp add: get_top_nodes_by_metric_def py_take_def sort_reverse_def)

text \<open>
  Claim C9, amended. For an unknown metric name the helper returns the empty list, a normal
  result and no error; for a known metric name and \<open>N \<ge> 0\<close> it returns the first \<open>N\<close>
  (node, value) pairs of the metric sorted descending by value.
\<close>

theorem get_top_nodes_by_metric_result:
  "(map_of metrics_dict metric_name = None
      \<longrightarrow> get_top_nodes_by_metric metrics_dict metric_name top_n = Inr [])
   \<and> (\<forall>metric_data. map_of metrics_dict metric_name = Some metric_data \<and> 0 \<le> top_n \<longrightarrow>
        (\<exists>top rest. get_top_nodes_by_metric metrics_dict metric_name top_n = Inr top
           \<and> length top = min (nat top_n) (length metric_data)
           \<and> mset (top @ rest) = mset metric_data
           \<and> sorted_wrt (\<lambda>a b. snd a \<ge> snd b) (top @ rest)))"
proof -
  have a: "map_of metrics_dict metric_name = None
      \<longrightarrow> get_top_nodes_by_metric metrics_dict metric_name top_n = Inr []"
    by (simp add: get_top_nodes_by_metric_def)
  have b: "\<forall>metric_data. map_of metrics_dict metric_name = Some metric_data \<and> 0 \<le> top_n \<longrightarrow>
        (\<exists>top rest. get_top_nodes_by_metric metrics_dict metric_name top_n = Inr top
           \<and> length top = min (nat top_n) (length metric_data)
           \<and> mset (top @ rest) = mset metric_data
           \<and> sorted_wrt (\<lambda>a b. snd a \<ge> snd b) (top @ rest))"
  proof (intro allI impI)
    fix metric_data
    assume h: "map_of metrics_dict metric_name = Some metric_data \<and> 0 \<le> top_n"
    let ?s = "sort_reverse snd metric_data"
    have r: "get_top_nodes_by_metric metrics_dict metric_name top_n = Inr (take (nat top_n) ?s)"
      using h by (simp add: get_top_nodes_by_metric_def py_take_def)
    have l: "length (take (nat top_n) ?s) = min (nat top_n) (length metric_data)"
      by (simp add: length_sort_reverse min.commute)
    have p: "mset (take (nat top_n) ?s @ drop (nat top_n) ?s) = mset metric_data"
      by (simp add: mset_sort_reverse)
    have s: "sorted_wrt (\<lambda>a b. snd a \<ge> snd b) (take (nat top_n) ?s @ drop (nat top_n) ?s)"
      using sorted_sort_reverse [of snd metric_data] by simp
    from r l p s show "\<exists>top rest. get_top_nodes_by_metric metrics_dict metric_name top_n = Inr top
           \<and> length top = min (nat top_n) (length metric_data)
           \<and> mset (top @ rest) = mset metric_data
           \<and> sorted_wrt (\<lambda>a b. snd a \<ge> snd b) (top @ rest)"
      by blast
  qed
  from a b show ?thesis by blast
qed

theorem get_top_nodes_by_metric_result_witness:
  "map_of [(''degree_centrality'', [(1 :: node, 1 / 2 :: rat), (2, 1), (3, 1 / 4)])] ''closeness'' = None
   \<and> get_top_nodes_by_metric [(''degree_centrality'', [(1, 1 / 2), (2, 1), (3, 1 / 4)])] ''closeness'' 2 = Inr []
   \<and> map_of [(''degree_centrality'', [(1 :: node, 1 / 2 :: rat), (2, 1), (3, 1 / 4)])] ''degree_centrality''
       = Some [(1, 1 / 2), (2, 1), (3, 1 / 4)]
   \<and> (0 :: int) \<le> 2
   \<and> (\<exists>top rest. get_top_nodes_by_metric [(''degree_centrality'', [(1, 1 / 2), (2, 1), (3, 1 / 4)])]
                    ''degree_centrality'' 2 = Inr top
         \<and> length top = min (nat 2) (length [(1 :: node, 1 / 2 :: rat), (2, 1), (3, 1 / 4)])
         \<and> mset (top @ rest) = mset [(1, 1 / 2), (2, 1), (3, 1 / 4)]
         \<and> sorted_wrt (\<lambda>a b. snd a \<ge> snd b) (top @ rest))"
  using get_top_nodes_by_metric_result
    [of "[(''degree_centrality'', [(1, 1 / 2), (2, 1), (3, 1 / 4)])]" "''closeness''" 2]
    get_top_nodes_by_metric_result
    [of "[(''degree_centrality'', [(1, 1 / 2), (2, 1), (3, 1 / 4)])]" "''degree_centrality''" 2]
  by simp

section \<open>The searches on graphs without a node of id 0\<close>

text \<open>
  When no node has the id 0, the Scenario A search returns the three best of all the
  configurations of the specification, in descending order of score.
\<close>

lemma middleman_candidates_a_betweenness:
  assumes "c \<in> set (middleman_candidates_a g m e hs)"
  shows "betweenness m (fst c) > 1 / 1000"
proof -
  from assms have "c \<in> set (sort_reverse snd
       (map (\<lambda>nb. (nb, betweenness m nb))
          (filter (\<lambda>nb. nb \<notin> set hs \<and> betweenness m nb > 1 / 1000) (neighbors g e))))"
    unfolding middleman_candidates_a_def by (rule in_set_takeD)
  then show ?thesis by (force simp add: set_sort_reverse)
qed

lemma boris_body_configurations:
  assumes "boris_body g m cfg e hs cand acc = Inr acc'"
    and "betweenness m (fst cand) > 1 / 1000"
    and "0 \<notin> set (nodes g)"
  shows "acc' = acc @ configurations_a g m cfg e hs cand"
proof (cases "fst cand = e \<or> degree g (fst cand) > 80")
  case True
  with assms(1) show ?thesis
    by (auto simp add: boris_body_def configurations_a_def Let_def split: if_splits)
next
  case False
  with assms(1,2) have n: "fst cand \<in> set (nodes g)"
    by (auto simp add: boris_body_def Let_def split: if_splits)
  from assms(1,2) False n obtain lc where
    lc: "find_fearless_leader g m cfg (neighbors g (fst cand)) (hs @ [e]) = Inr lc"
    by (auto simp add: boris_body_def get_neighbors_def Let_def split: sum.splits)
  show ?thesis
  proof (cases lc)
    case None
    with assms(1,2) False n lc show ?thesis
      by (simp add: boris_body_def get_neighbors_def configurations_a_def Let_def)
  next
    case (Some l)
    from find_fearless_leader_in_pool [OF lc [unfolded Some]] assms(3) have "l \<noteq> 0" by auto
    with assms(1,2) False n lc Some show ?thesis
      by (simp add: boris_body_def get_neighbors_def configurations_a_def Let_def)
  qed
qed

lemma boris_loop_configurations:
  assumes "for_each (boris_body g m cfg e hs) cands acc = Inr acc'"
    and "list_all (\<lambda>c. betweenness m (fst c) > 1 / 1000) cands"
    and "0 \<notin> set (nodes g)"
  shows "acc' = acc @ concat (map (configurations_a g m cfg e hs) cands)"
  using assms(1,2)
proof (induction cands arbitrary: acc)
  case Nil
  then show ?case by simp
next
  case (Cons c cs)
  from Cons.prems(1) obtain acc1 where b: "boris_body g m cfg e hs c acc = Inr acc1"
    and r: "for_each (boris_body g m cfg e hs) cs acc1 = Inr acc'"
    by (auto split: sum.splits)
  from Cons.prems(2) have c: "betweenness m (fst c) > 1 / 1000"
    and cs: "list_all (\<lambda>c. betweenness m (fst c) > 1 / 1000) cs" by simp_all
  from boris_body_configurations [OF b c assms(3)] Cons.IH [OF r cs] show ?case by simp
qed

lemma combo_body_a_configurations:
  assumes "combo_body_a g m cfg e (neighbors g e) combo acc = Inr acc'"
    and "0 \<notin> set (nodes g)"
  shows "acc' = acc @ concat (map (configurations_a g m cfg e (map fst combo))
                                  (middleman_candidates_a g m e (map fst combo)))"
proof -
  let ?hs = "map fst combo"
  let ?pb = "sort_reverse snd (map (\<lambda>nb. (nb, betweenness m nb))
              (filter (\<lambda>nb. nb \<notin> set ?hs \<and> betweenness m nb > 1 / 1000) (neighbors g e)))"
  have mc: "middleman_candidates_a g m e ?hs = take 5 ?pb"
    by (simp add: middleman_candidates_a_def)
  show ?thesis
  proof (cases "?pb = []")
    case True
    with assms(1) show ?thesis by (simp add: combo_body_a_def Let_def mc)
  next
    case False
    with assms(1) have r: "for_each (boris_body g m cfg e ?hs) (take 5 ?pb) acc = Inr acc'"
      by (simp add: combo_body_a_def Let_def)
    have "list_all (\<lambda>c. betweenness m (fst c) > 1 / 1000) (take 5 ?pb)"
      using middleman_candidates_a_betweenness [of _ g m e ?hs]
      by (simp add: list_all_iff mc)
    from boris_loop_configurations [OF r this assms(2)] show ?thesis by (simp add: mc)
  qed
qed

lemma combos_loop_configurations:
  assumes "for_each (combo_body_a g m cfg e (neighbors g e)) combos acc = Inr acc'"
    and "0 \<notin> set (nodes g)"
  shows "acc' = acc @ concat (map (\<lambda>combo. concat (map (configurations_a g m cfg e (map fst combo))
                                  (middleman_candidates_a g m e (map fst combo)))) combos)"
  using assms(1)
proof (induction combos arbitrary: acc)
  case Nil
  then show ?case by simp
next
  case (Cons c cs)
  from Cons.prems obtain acc1 where b: "combo_body_a g m cfg e (neighbors g e) c acc = Inr acc1"
    and r: "for_each (combo_body_a g m cfg e (neighbors g e)) cs acc1 = Inr acc'"
    by (auto split: sum.splits)
  from combo_body_a_configurations [OF b assms(2)] Cons.IH [OF r] show ?case by simp
qed

lemma detect_scenario_a_without_node_zero:
  assumes "detect_scenario_a g m cfg e = Inr rs" and "0 \<notin> set (nodes g)"
  shows "\<exists>hc. find_handler_candidates g m cfg (neighbors g e) = Inr hc
           \<and> rs = (if length hc < 3 then []
                   else take 3 (sort_reverse score
                          (concat (map (\<lambda>combo. concat (map (configurations_a g m cfg e (map fst combo))
                                            (middleman_candidates_a g m e (map fst combo))))
                                     (combinations (take 10 hc) 3)))))"
proof -
  from assms(1) have e: "e \<in> set (nodes g)"
    by (auto simp add: detect_scenario_a_def get_neighbors_def split: if_splits)
  from assms(1) e obtain hc where hc: "find_handler_candidates g m cfg (neighbors g e) = Inr hc"
    by (auto simp add: detect_scenario_a_def get_neighbors_def split: sum.splits)
  show ?thesis
  proof (cases "length hc < 3")
    case True
    with assms(1) e hc show ?thesis by (simp add: detect_scenario_a_def get_neighbors_def)
  next
    case False
    with assms(1) e hc obtain all where
      r: "for_each (combo_body_a g m cfg e (neighbors g e)) (combinations (take 10 hc) 3) [] = Inr all"
      and rs: "rs = take 3 (sort_reverse score all)"
      by (auto simp add: detect_scenario_a_def get_neighbors_def Let_def split: sum.splits)
    from combos_loop_configurations [OF r assms(2)] rs hc False show ?thesis by simp
  qed
qed

text \<open>
  When no node has the id 0, the Scenario B search returns a configuration of a handler
  triple that has a positive score and the highest score of all triples, and returns
  \<^verbatim>\<open>None\<close> exactly when no triple has a configuration of positive score.
\<close>

lemma configuration_b_Some:
  assumes "map (handler_middleman g m cfg e hs) hs = [Inr (Some m1), Inr (Some m2), Inr (Some m3)]"
    and "distinct [m1, m2, m3]"
  shows "configuration_b set_iter g m cfg e hs =
           (case find_fearless_leader g m cfg
                    (set_iter (set (neighbors g m1) \<inter> set (neighbors g m2) \<inter> set (neighbors g m3)
                               - set (hs @ [e] @ [m1, m2, m3])))
                    (set_iter (set (hs @ [e] @ [m1, m2, m3]))) of
               Inr (Some l) \<Rightarrow>
                 Some \<lparr>employee = e, handlers = hs, boris = m1, fearless_leader = l,
                       score = score_scenario_b_configuration g m cfg e hs [m1, m2, m3] l,
                       scenario = ''B'', morris = m2, horace = m3\<rparr>
             | _ \<Rightarrow> None)"
  using assms by (simp add: configuration_b_def)

lemma configuration_b_None:
  assumes "\<not> (\<exists>m1 m2 m3. map (handler_middleman g m cfg e hs) hs = [Inr (Some m1), Inr (Some m2), Inr (Some m3)]
                \<and> distinct [m1, m2, m3])"
  shows "configuration_b set_iter g m cfg e hs = None"
  using assms
  by (auto simp add: configuration_b_def split: list.splits sum.splits option.splits)

lemma middleman_body_node:
  assumes "middleman_body g m cfg n st = Inr st'"
  shows "st' = st \<or> (fst st' = Some n \<and> n \<in> set (nodes g))"
  using assms by (auto simp add: middleman_body_def Let_def split: if_splits)

lemma find_best_middleman_node:
  assumes "find_best_middleman_for_handler g m cfg pool = Inr (Some x)"
  shows "x \<in> set (nodes g)"
proof -
  from assms obtain st where
    r: "for_each (middleman_body g m cfg) pool (None, 0) = Inr st" and st: "fst st = Some x"
    by (auto simp add: find_best_middleman_for_handler_def split: sum.splits)
  let ?I = "\<lambda>st. \<forall>l. fst st = Some l \<longrightarrow> l \<in> set (nodes g)"
  have "?I st"
  proof (rule for_each_invariant [OF r, where I = ?I])
    show "?I (None, 0)" by simp
  next
    fix y s s'
    assume "y \<in> set pool" "?I s" "middleman_body g m cfg y s = Inr s'"
    then show "?I s'" using middleman_body_node [of g m cfg y s s'] by auto
  qed
  with st show ?thesis by simp
qed

lemma handler_middleman_node:
  assumes "handler_middleman g m cfg e hs h = Inr (Some x)"
  shows "x \<in> set (nodes g)"
  using assms find_best_middleman_node [of g m cfg _ x]
  by (auto simp add: handler_middleman_def Let_def split: sum.splits)

lemma kept_middleman_node:
  assumes "handler_middleman g m cfg e hs h = Inr (Some x)" and "0 \<notin> set (nodes g)"
  shows "kept_middleman (handler_middleman g m cfg e hs h) = [x]"
  using handler_middleman_node [OF assms(1)] assms by (auto simp add: kept_middleman_def)

lemma common_pair:
  assumes "for_each (common_body g) [y, z] c0 = Inr c"
  shows "c = c0 \<inter> set (neighbors g y) \<inter> set (neighbors g z)"
  using assms
  by (auto simp add: common_body_def get_neighbors_def split: sum.splits if_splits)

lemma combo_body_b_configuration:
  assumes "combo_body_b set_iter g m cfg e combo st = Inr st'"
    and "length combo = 3" and "0 \<notin> set (nodes g)"
  shows "st' = (case configuration_b set_iter g m cfg e (map fst combo) of
                  None \<Rightarrow> st
                | Some c \<Rightarrow> if score c > snd st then (Some c, score c) else st)"
proof -
  let ?hs = "map fst combo"
  let ?hm = "handler_middleman g m cfg e ?hs"
  from assms(2) obtain c1 c2 c3 where combo: "combo = [c1, c2, c3]"
    by (auto simp add: length_Suc_conv numeral_3_eq_3)
  have hs: "?hs = [fst c1, fst c2, fst c3]" by (simp add: combo)
  from assms(1) obtain ms where
    ms: "for_each (middlemen_body g m cfg e ?hs) ?hs [] = Inr ms"
    by (auto simp add: combo_body_b_def Let_def split: sum.splits)
  from middlemen_loop [OF ms] have
    mseq: "ms = kept_middleman (?hm (fst c1)) @ kept_middleman (?hm (fst c2)) @ kept_middleman (?hm (fst c3))"
    by (simp add: hs)
  show ?thesis
  proof (cases "length ms \<noteq> 3 \<or> card (set ms) \<noteq> 3")
    case True
    with assms(1) ms have same: "st' = st" by (auto simp add: combo_body_b_def Let_def)
    have "\<not> (\<exists>m1 m2 m3. map ?hm ?hs = [Inr (Some m1), Inr (Some m2), Inr (Some m3)] \<and> distinct [m1, m2, m3])"
    proof
      assume "\<exists>m1 m2 m3. map ?hm ?hs = [Inr (Some m1), Inr (Some m2), Inr (Some m3)] \<and> distinct [m1, m2, m3]"
      then obtain m1 m2 m3 where
        k: "?hm (fst c1) = Inr (Some m1)" "?hm (fst c2) = Inr (Some m2)" "?hm (fst c3) = Inr (Some m3)"
        and d: "distinct [m1, m2, m3]"
        by (auto simp add: hs)
      from kept_middleman_node [OF k(1) assms(3)] kept_middleman_node [OF k(2) assms(3)]
        kept_middleman_node [OF k(3) assms(3)] mseq
      have "ms = [m1, m2, m3]" by simp
      with d have "length ms = 3 \<and> card (set ms) = 3" using distinct_card [of ms] by simp
      with True show False by simp
    qed
    from configuration_b_None [OF this] same show ?thesis by simp
  next
    case False
    then have len: "length ms = 3" and card: "card (set ms) = 3" by auto
    then have d: "distinct ms" by (simp add: card_distinct)
    from three_kept [of "?hm (fst c1)" "?hm (fst c2)" "?hm (fst c3)"] len mseq
    obtain x y z where k: "?hm (fst c1) = Inr (Some x)" "?hm (fst c2) = Inr (Some y)"
      "?hm (fst c3) = Inr (Some z)" and xyz: "ms = [x, y, z]"
      by auto
    have shape: "map ?hm ?hs = [Inr (Some x), Inr (Some y), Inr (Some z)]"
      using k by (simp add: hs)
    have dx: "distinct [x, y, z]" using d xyz by simp
    from assms(1) ms False obtain ns0 where ns0: "get_neighbors g (ms ! 0) = Inr ns0"
      by (auto simp add: combo_body_b_def Let_def split: sum.splits)
    then have ns0eq: "ns0 = neighbors g x"
      by (auto simp add: get_neighbors_def xyz split: if_splits)
    from assms(1) ms False ns0 obtain common0 where
      c0: "for_each (common_body g) (tl ms) (set ns0) = Inr common0"
      by (auto simp add: combo_body_b_def Let_def split: sum.splits)
    from common_pair [of g y z "set ns0" common0] c0 have
      common: "common0 = set (neighbors g x) \<inter> set (neighbors g y) \<inter> set (neighbors g z)"
      by (simp add: xyz ns0eq)
    let ?ex = "set (?hs @ [e] @ ms)"
    from assms(1) ms False ns0 c0 obtain lc where
      lc: "find_fearless_leader g m cfg (set_iter (common0 - ?ex)) (set_iter ?ex) = Inr lc"
      by (auto simp add: combo_body_b_def Let_def split: sum.splits)
    have body: "combo_body_b set_iter g m cfg e combo st =
      (case lc of None \<Rightarrow> Inr st
       | Some leader \<Rightarrow>
           if truthy lc then
             let config_score = score_scenario_b_configuration g m cfg e ?hs ms leader
             in if config_score > snd st then
                  Inr (Some \<lparr>employee = e, handlers = ?hs, boris = ms ! 0, fearless_leader = leader,
                             score = config_score, scenario = ''B'',
                             morris = ms ! 1, horace = ms ! 2\<rparr>, config_score)
                else Inr st
           else Inr st)"
      using ms False ns0 c0 lc by (simp add: combo_body_b_def Let_def)
    have cfgb: "configuration_b set_iter g m cfg e ?hs =
           (case lc of
               Some l \<Rightarrow>
                 Some \<lparr>employee = e, handlers = ?hs, boris = x, fearless_leader = l,
                       score = score_scenario_b_configuration g m cfg e ?hs [x, y, z] l,
                       scenario = ''B'', morris = y, horace = z\<rparr>
             | None \<Rightarrow> None)"
      using configuration_b_Some [OF shape dx, of set_iter] lc
      by (simp add: common xyz split: option.splits)
    show ?thesis
    proof (cases lc)
      case None
      with body assms(1) cfgb show ?thesis by simp
    next
      case (Some l)
      from find_fearless_leader_in_pool [OF lc [unfolded Some]] assms(3) have "l \<noteq> 0" by auto
      with body assms(1) cfgb Some show ?thesis by (auto simp add: Let_def xyz)
    qed
  qed
qed

lemma combos_loop_best:
  assumes "for_each (combo_body_b set_iter g m cfg e) combos (bc, bs) = Inr (bc', bs')"
    and "list_all (\<lambda>c. length c = 3) combos" and "0 \<notin> set (nodes g)"
  shows "bs \<le> bs'
         \<and> list_all (\<lambda>c. case configuration_b set_iter g m cfg e (map fst c) of
                             None \<Rightarrow> True | Some x \<Rightarrow> score x \<le> bs') combos
         \<and> ((bc' = bc \<and> bs' = bs)
            \<or> (\<exists>c x. c \<in> set combos \<and> configuration_b set_iter g m cfg e (map fst c) = Some x
                    \<and> bc' = Some x \<and> score x = bs' \<and> bs < bs'))"
  using assms(1,2)
proof (induction combos arbitrary: bc bs)
  case Nil
  then show ?case by simp
next
  case (Cons c cs)
  let ?cf = "\<lambda>c. configuration_b set_iter g m cfg e (map fst c)"
  from Cons.prems(1) obtain st1 where b: "combo_body_b set_iter g m cfg e c (bc, bs) = Inr st1"
    and r: "for_each (combo_body_b set_iter g m cfg e) cs st1 = Inr (bc', bs')"
    by (auto split: sum.splits)
  from Cons.prems(2) have lc: "length c = 3" and lcs: "list_all (\<lambda>c. length c = 3) cs" by simp_all
  from combo_body_b_configuration [OF b lc assms(3)] have
    st1: "st1 = (case ?cf c of None \<Rightarrow> (bc, bs)
                 | Some x \<Rightarrow> if score x > bs then (Some x, score x) else (bc, bs))"
    by (simp split: option.splits)
  obtain bc1 bs1 where p: "st1 = (bc1, bs1)" by (cases st1)
  from Cons.IH [OF r [unfolded p] lcs] have
    mono: "bs1 \<le> bs'"
    and ub: "list_all (\<lambda>c. case ?cf c of None \<Rightarrow> True | Some x \<Rightarrow> score x \<le> bs') cs"
    and w: "(bc' = bc1 \<and> bs' = bs1)
            \<or> (\<exists>c x. c \<in> set cs \<and> ?cf c = Some x \<and> bc' = Some x \<and> score x = bs' \<and> bs1 < bs')"
    by blast+
  show ?case
  proof (cases "?cf c")
    case None
    with st1 p have eq: "bc1 = bc" "bs1 = bs" by simp_all
    from mono ub w None eq show ?thesis by auto
  next
    case (Some x)
    show ?thesis
    proof (cases "score x > bs")
      case True
      with st1 p Some have eq: "bc1 = Some x" "bs1 = score x" by simp_all
      have "bs \<le> bs'" using True mono eq by simp
      moreover have "list_all (\<lambda>c. case ?cf c of None \<Rightarrow> True | Some x \<Rightarrow> score x \<le> bs') (c # cs)"
        using ub mono eq Some by simp
      moreover have "\<exists>c' x'. c' \<in> set (c # cs) \<and> ?cf c' = Some x' \<and> bc' = Some x'
                        \<and> score x' = bs' \<and> bs < bs'"
      proof (rule disjE [OF w])
        assume "bc' = bc1 \<and> bs' = bs1"
        with eq Some True have "c \<in> set (c # cs) \<and> ?cf c = Some x \<and> bc' = Some x
                        \<and> score x = bs' \<and> bs < bs'" by simp
        then show ?thesis by (intro exI [of _ c] exI [of _ x])
      next
        assume "\<exists>c x. c \<in> set cs \<and> ?cf c = Some x \<and> bc' = Some x \<and> score x = bs' \<and> bs1 < bs'"
        then obtain c' x' where "c' \<in> set cs" "?cf c' = Some x'" "bc' = Some x'" "score x' = bs'" "bs1 < bs'"
          by blast
        with True eq have "c' \<in> set (c # cs) \<and> ?cf c' = Some x' \<and> bc' = Some x'
                        \<and> score x' = bs' \<and> bs < bs'" by simp
        then show ?thesis by (intro exI [of _ c'] exI [of _ x'])
      qed
      ultimately show ?thesis by blast
    next
      case False
      with st1 p Some have eq: "bc1 = bc" "bs1 = bs" by simp_all
      have "list_all (\<lambda>c. case ?cf c of None \<Rightarrow> True | Some x \<Rightarrow> score x \<le> bs') (c # cs)"
        using ub mono eq Some False by simp
      moreover have "(bc' = bc \<and> bs' = bs)
            \<or> (\<exists>c' x'. c' \<in> set (c # cs) \<and> ?cf c' = Some x' \<and> bc' = Some x' \<and> score x' = bs' \<and> bs < bs')"
        using w eq by auto
      ultimately show ?thesis using mono eq by blast
    qed
  qed
qed

lemma detect_scenario_b_without_node_zero:
  assumes "detect_scenario_b set_iter g m cfg e = Inr r" and "0 \<notin> set (nodes g)"
  shows "\<exists>hc. find_handler_candidates g m cfg (neighbors g e) = Inr hc
           \<and> (r = None \<longleftrightarrow>
                length hc < 3
                \<or> list_all (\<lambda>c. case configuration_b set_iter g m cfg e (map fst c) of
                                    None \<Rightarrow> True | Some y \<Rightarrow> score y \<le> 0)
                     (combinations (take 10 hc) 3))
           \<and> (\<forall>x. r = Some x \<longrightarrow>
                3 \<le> length hc
                \<and> (\<exists>c. c \<in> set (combinations (take 10 hc) 3)
                       \<and> configuration_b set_iter g m cfg e (map fst c) = Some x)
                \<and> 0 < score x
                \<and> list_all (\<lambda>c. case configuration_b set_iter g m cfg e (map fst c) of
                                    None \<Rightarrow> True | Some y \<Rightarrow> score y \<le> score x)
                     (combinations (take 10 hc) 3))"
proof -
  let ?cf = "\<lambda>c. configuration_b set_iter g m cfg e (map fst c)"
  from assms(1) have e: "e \<in> set (nodes g)"
    by (auto simp add: detect_scenario_b_def get_neighbors_def split: if_splits)
  from assms(1) e obtain hc where hc: "find_handler_candidates g m cfg (neighbors g e) = Inr hc"
    by (auto simp add: detect_scenario_b_def get_neighbors_def split: sum.splits)
  let ?combos = "combinations (take 10 hc) 3"
  show ?thesis
  proof (cases "length hc < 3")
    case True
    with assms(1) e hc have "r = None" by (simp add: detect_scenario_b_def get_neighbors_def)
    with hc True show ?thesis by auto
  next
    case False
    with assms(1) e hc obtain bc' bs' where
      loop: "for_each (combo_body_b set_iter g m cfg e) ?combos (None, 0) = Inr (bc', bs')"
      and r: "r = bc'"
      by (auto simp add: detect_scenario_b_def get_neighbors_def split: sum.splits)
    have len: "list_all (\<lambda>c. length c = 3) ?combos"
      using combinations_props [of _ "take 10 hc" 3 fst] by (simp add: list_all_iff)
    from combos_loop_best [OF loop len assms(2)] have
      ub: "list_all (\<lambda>c. case ?cf c of None \<Rightarrow> True | Some y \<Rightarrow> score y \<le> bs') ?combos"
      and w: "(bc' = None \<and> bs' = 0)
              \<or> (\<exists>c x. c \<in> set ?combos \<and> ?cf c = Some x \<and> bc' = Some x \<and> score x = bs' \<and> 0 < bs')"
      by blast+
    have a: "r = None \<longleftrightarrow>
                length hc < 3 \<or> list_all (\<lambda>c. case ?cf c of None \<Rightarrow> True | Some y \<Rightarrow> score y \<le> 0) ?combos"
    proof
      assume "r = None"
      with r w have z0: "bs' = 0" by auto
      from ub have "list_all (\<lambda>c. case ?cf c of None \<Rightarrow> True | Some y \<Rightarrow> score y \<le> 0) ?combos"
        unfolding z0 .
      then show "length hc < 3 \<or> list_all (\<lambda>c. case ?cf c of None \<Rightarrow> True | Some y \<Rightarrow> score y \<le> 0) ?combos"
        by (rule disjI2)
    next
      assume "length hc < 3 \<or> list_all (\<lambda>c. case ?cf c of None \<Rightarrow> True | Some y \<Rightarrow> score y \<le> 0) ?combos"
      with False have z: "list_all (\<lambda>c. case ?cf c of None \<Rightarrow> True | Some y \<Rightarrow> score y \<le> 0) ?combos"
        by simp
      show "r = None"
      proof (rule ccontr)
        assume "r \<noteq> None"
        with r w obtain c x where "c \<in> set ?combos" "?cf c = Some x" "score x = bs'" "0 < bs'" by auto
        with z show False by (auto simp add: list_all_iff)
      qed
    qed
    have b: "\<forall>x. r = Some x \<longrightarrow>
                3 \<le> length hc
                \<and> (\<exists>c. c \<in> set ?combos \<and> ?cf c = Some x)
                \<and> 0 < score x
                \<and> list_all (\<lambda>c. case ?cf c of None \<Rightarrow> True | Some y \<Rightarrow> score y \<le> score x) ?combos"
    proof (intro allI impI)
      fix x assume "r = Some x"
      with r w obtain c where "c \<in> set ?combos" "?cf c = Some x" "score x = bs'" "0 < bs'" by auto
      with ub False show "3 \<le> length hc
                \<and> (\<exists>c. c \<in> set ?combos \<and> ?cf c = Some x)
                \<and> 0 < score x
                \<and> list_all (\<lambda>c. case ?cf c of None \<Rightarrow> True | Some y \<Rightarrow> score y \<le> score x) ?combos"
        by auto
    qed
    from hc a b show ?thesis by blast
  qed
qed

section \<open>Inputs on which a search drops a valid configuration\<close>

text \<open>
  Claim C6 at the cell of 21 nodes, no node in a large city. The only handler triple yields
  the three distinct middlemen 5, 6 and 7 and the leader 8, a valid configuration whose
  configuration score is 0. The search starts from \<^verbatim>\<open>best_score = 0\<close> and keeps a
  configuration only when its score is greater, so it returns \<^verbatim>\<open>None\<close>. Node 8 is the only
  node of the leader pool that qualifies, so the order of the pool does not matter.
\<close>

theorem detect_scenario_b_drops_zero_score:
  "find_handler_candidates (cell_graph 6 []) cell_metrics cell_config (neighbors (cell_graph 6 []) 1)
     = Inr [(2, 3 / 4), (3, 3 / 4), (4, 3 / 4)]
   \<and> combinations (take 10 [(2 :: node, 3 / 4 :: rat), (3, 3 / 4), (4, 3 / 4)]) 3
       = [[(2, 3 / 4), (3, 3 / 4), (4, 3 / 4)]]
   \<and> for_each (middlemen_body (cell_graph 6 []) cell_metrics cell_config 1 [2, 3, 4]) [2, 3, 4] []
       = Inr [5, 6, 7]
   \<and> distinct [5, 6, 7 :: node]
   \<and> find_fearless_leader (cell_graph 6 []) cell_metrics cell_config
        (sorted_list_of_set (set (neighbors (cell_graph 6 []) 5) \<inter> set (neighbors (cell_graph 6 []) 6)
            \<inter> set (neighbors (cell_graph 6 []) 7) - set [2, 3, 4, 1, 5, 6, 7]))
        (sorted_list_of_set (set [2, 3, 4, 1, 5, 6, 7])) = Inr (Some 8)
   \<and> score_scenario_b_configuration (cell_graph 6 []) cell_metrics cell_config 1 [2, 3, 4] [5, 6, 7] 8 = 0
   \<and> detect_scenario_b sorted_list_of_set (cell_graph 6 []) cell_metrics cell_config 1 = Inr None"
  by code_simp

text \<open>
  Claim C7 at the end-to-end scenario of the specification with the leader's id 0. For the
  triple of handlers 2, 3 and 4 the middleman 5 survives and leader identification returns
  node 0; \<^verbatim>\<open>if leader_candidate:\<close> is false for the id 0, the configuration is not recorded
  and the search returns the empty list. With the id 6 for the same node the configuration
  is returned.
\<close>

theorem detect_scenario_a_drops_leader_zero:
  "find_handler_candidates (ring_graph 0) (ring_metrics 0) ring_config (neighbors (ring_graph 0) 1)
     = Inr [(5, 8 / 10), (2, 3 / 4), (3, 3 / 4), (4, 3 / 4)]
   \<and> [(2 :: node, 3 / 4 :: rat), (3, 3 / 4), (4, 3 / 4)]
       \<in> set (combinations (take 10 [(5, 8 / 10), (2, 3 / 4), (3, 3 / 4), (4, 3 / 4)]) 3)
   \<and> take 5 (sort_reverse snd (map (\<lambda>nb. (nb, betweenness (ring_metrics 0) nb))
        (filter (\<lambda>nb. nb \<notin> set [2, 3, 4] \<and> betweenness (ring_metrics 0) nb > 1 / 1000)
           (neighbors (ring_graph 0) 1)))) = [(5, 2 / 100)]
   \<and> degree (ring_graph 0) 5 = 2
   \<and> find_fearless_leader (ring_graph 0) (ring_metrics 0) ring_config (neighbors (ring_graph 0) 5)
        ([2, 3, 4] @ [1]) = Inr (Some 0)
   \<and> detect_scenario_a (ring_graph 0) (ring_metrics 0) ring_config 1 = Inr []
   \<and> detect_scenario_a (ring_graph 6) (ring_metrics 6) ring_config 1
       = Inr [\<lparr>employee = 1, handlers = [2, 3, 4], boris = 5, fearless_leader = 6,
                score = 15, scenario = ''A''\<rparr>]"
  by code_simp

end
